theory Spec2Isabelle
  imports Complex_Main "HOL-Library.AList"
begin

section \<open>JavaScript values\<close>

text \<open>
  The values the index code handles: the decoded descriptor data (objects, arrays,
  strings, numbers, booleans, null) and \<open>undefined\<close>. A number is a finite real, NaN or
  an infinity (\<open>-0\<close> is identified with \<open>0\<close>; both are falsy). An object is the list of
  its own enumerable properties in the order \<open>Object.keys\<close> lists them; a property read
  takes the first entry for the key. The objects that the code creates with \<open>{}\<close> and
  uses as dictionaries inherit the properties of \<open>Object.prototype\<close>; \<open>obj_lookup\<close> and
  \<open>obj_assign\<close> below say what that does to a read and to a write.
\<close>

datatype jsval =
    JUndefined
  | JNull
  | JBool bool
  | JNumber real
  | JNaN
  | JInfinity bool
  | JString string
  | JArray "jsval list"
  | JObject "(string \<times> jsval) list"

datatype error = TypeError | RangeError

text \<open>The conversion to boolean that \<open>!x\<close>, \<open>x || y\<close>, \<open>x && y\<close> and \<open>if (x)\<close> apply.\<close>

fun truthy :: "jsval \<Rightarrow> bool" where
  "truthy JUndefined = False"
| "truthy JNull = False"
| "truthy (JBool b) = b"
| "truthy (JNumber x) = (x \<noteq> 0)"
| "truthy JNaN = False"
| "truthy (JInfinity _) = True"
| "truthy (JString s) = (s \<noteq> [])"
| "truthy (JArray _) = True"
| "truthy (JObject _) = True"

text \<open>
  \<open>Array.isArray\<close>, which the file defines where the engine lacks it: true of arrays
  only. In the functions below the test is the case distinction on \<open>JArray\<close>.
\<close>

fun Array_isArray :: "jsval \<Rightarrow> bool" where
  "Array_isArray (JArray _) = True"
| "Array_isArray _ = False"

text \<open>Reading and writing an own property of an object.\<close>

definition obj_get :: "(string \<times> 'v) list \<Rightarrow> string \<Rightarrow> 'v option" where
  "obj_get obj key = map_of obj key"

definition obj_set :: "(string \<times> 'v) list \<Rightarrow> string \<Rightarrow> 'v \<Rightarrow> (string \<times> 'v) list" where
  "obj_set obj key v = AList.update key v obj"

text \<open>
  The names that \<open>Object.prototype\<close> defines: those of the language standard, and those
  that the engine adds (\<open>extra\<close>, a parameter). In a browser the engine adds the accessor
  \<open>__proto__\<close> and the functions \<open>__defineGetter__\<close>, \<open>__defineSetter__\<close>,
  \<open>__lookupGetter__\<close> and \<open>__lookupSetter__\<close>. What a read of one of these names
  finds is a function, or for \<open>__proto__\<close> the prototype itself: a truthy value that has
  no method \<open>push\<close>.
\<close>

definition Object_prototype_names :: "string list \<Rightarrow> string list" where
  "Object_prototype_names extra =
     [''constructor'', ''toString'', ''toLocaleString'', ''valueOf'', ''hasOwnProperty'',
      ''isPrototypeOf'', ''propertyIsEnumerable''] @ extra"

definition browser_names :: "string list" where
  "browser_names =
     [''__proto__'', ''__defineGetter__'', ''__defineSetter__'', ''__lookupGetter__'',
      ''__lookupSetter__'']"

text \<open>
  The read \<open>obj[key]\<close> on an object created with \<open>{}\<close>: the own property when there is
  one, else what \<open>Object.prototype\<close> has under that name, else \<open>undefined\<close>.
\<close>

datatype 'v lookup = Own 'v | Inherited | Absent

definition obj_lookup :: "string list \<Rightarrow> (string \<times> 'v) list \<Rightarrow> string \<Rightarrow> 'v lookup" where
  "obj_lookup extra obj key =
     (case obj_get obj key of
        Some v \<Rightarrow> Own v
      | None \<Rightarrow> if key \<in> set (Object_prototype_names extra) then Inherited else Absent)"

text \<open>
  The write \<open>obj[key] = v\<close> on an object created with \<open>{}\<close>. Where the engine has the
  accessor \<open>__proto__\<close>, the write to that key runs the setter of the accessor, which
  creates no own property: the own properties stay as they were. (The setter may change
  the prototype of the object; the model keeps the own properties only.) Every other
  name of \<open>Object.prototype\<close> is a writable data property, and the write creates an own
  property as for any key.
\<close>

definition obj_assign ::
  "string list \<Rightarrow> (string \<times> 'v) list \<Rightarrow> string \<Rightarrow> 'v \<Rightarrow> (string \<times> 'v) list" where
  "obj_assign extra obj key v =
     (if key = ''__proto__'' \<and> ''__proto__'' \<in> set extra then obj else obj_set obj key v)"

section \<open>treesaver.array.remove\<close>

text \<open>
  An array is a list of slots; \<open>None\<close> is a hole (an index that is not an own property),
  which reads as \<open>undefined\<close>.
\<close>

type_synonym js_array = "jsval option list"

definition read_slot :: "jsval option \<Rightarrow> jsval" where
  "read_slot x = (case x of None \<Rightarrow> JUndefined | Some v \<Rightarrow> v)"

text \<open>\<open>array.slice(start)\<close>: a negative start counts from the end, and the start is clamped
  to the array.\<close>

definition array_slice :: "'a list \<Rightarrow> int \<Rightarrow> 'a list" where
  "array_slice xs start =
     (let len = int (length xs);
          k = (if start < 0 then max (len + start) 0 else min start len)
      in drop (nat k) xs)"

text \<open>\<open>array.length = n\<close>: truncates, or extends with holes; a length that is negative or
  above \<open>2^32 - 1\<close> raises a RangeError.\<close>

definition array_set_length :: "js_array \<Rightarrow> int \<Rightarrow> error + js_array" where
  "array_set_length xs n =
     (if n < 0 \<or> 4294967295 < n then Inl RangeError
      else Inr (take (nat n) xs @ replicate (nat n - length xs) None))"

text \<open>\<open>array.push.apply(array, rest)\<close>: the elements of \<open>rest\<close> are read (a hole reads as
  \<open>undefined\<close>) and appended; the result is the new length.\<close>

definition array_push_apply :: "js_array \<Rightarrow> js_array \<Rightarrow> int \<times> js_array" where
  "array_push_apply xs rest =
     (let ys = xs @ map (\<lambda>x. Some (read_slot x)) rest in (int (length ys), ys))"

text \<open>
  \<^verbatim>\<open>
  treesaver.array.remove = function(array, from, to) {
    var rest = array.slice((to || from) + 1 || array.length);
    array.length = from < 0 ? array.length + from : from;
    return array.push.apply(array, rest);
  };
  \<close>
  The argument \<open>to\<close> is optional (\<open>None\<close> when omitted). The result is the returned length
  and the array after the call.
\<close>

definition array_remove :: "js_array \<Rightarrow> int \<Rightarrow> int option \<Rightarrow> error + (int \<times> js_array)" where
  "array_remove array from to =
     (let to_or_from = (case to of None \<Rightarrow> from | Some t \<Rightarrow> if t = 0 then from else t);
          start = (if to_or_from + 1 = 0 then int (length array) else to_or_from + 1);
          rest = array_slice array start
      in case array_set_length array (if from < 0 then int (length array) + from else from) of
           Inl e \<Rightarrow> Inl e
         | Inr array' \<Rightarrow> Inr (array_push_apply array' rest))"

section \<open>treesaver.ui.Settings\<close>

text \<open>The keys of an array are its indices, written in decimal.\<close>

definition decimal_digit :: "nat \<Rightarrow> char" where
  "decimal_digit d = ''0123456789'' ! d"

function string_of_nat :: "nat \<Rightarrow> string" where
  "string_of_nat n =
     (if n < 10 then [decimal_digit n]
      else string_of_nat (n div 10) @ [decimal_digit (n mod 10)])"
  by pat_completeness auto
termination
  by (relation "measure id") auto

text \<open>
  \<open>Object.keys(o)\<close>: the own enumerable property names. On \<open>undefined\<close> and \<open>null\<close> it
  raises a TypeError. On any other value that is not an object, the fifth edition of the
  language raises a TypeError too (\<open>es5 = True\<close>), later editions convert the value to an
  object first. Any further argument is ignored.
\<close>

fun Object_keys :: "bool \<Rightarrow> jsval \<Rightarrow> error + string list" where
  "Object_keys es5 JUndefined = Inl TypeError"
| "Object_keys es5 JNull = Inl TypeError"
| "Object_keys es5 (JObject kvs) = Inr (map fst kvs)"
| "Object_keys es5 (JArray xs) = Inr (map string_of_nat [0..<length xs])"
| "Object_keys es5 (JString s) =
     (if es5 then Inl TypeError else Inr (map string_of_nat [0..<length s]))"
| "Object_keys es5 v = (if es5 then Inl TypeError else Inr [])"

record Settings =
  settings :: "(string \<times> jsval) list"

text \<open>
  \<^verbatim>\<open>
  treesaver.ui.Settings = function (s) {
    this.settings = {};
    if (s) {
      Object.keys(s, function (key) { this.settings[key] = s[key]; }, this);
    }
  };
  \<close>
  The function and \<open>this\<close> are further arguments of \<open>Object.keys\<close>; the list of keys it
  returns is dropped.
\<close>

definition Settings_new :: "bool \<Rightarrow> jsval \<Rightarrow> error + Settings" where
  "Settings_new es5 s =
     (let this = \<lparr>settings = []\<rparr>
      in if truthy s
         then (case Object_keys es5 s of Inl e \<Rightarrow> Inl e | Inr _ \<Rightarrow> Inr this)
         else Inr this)"

text \<open>
  \<^verbatim>\<open>
  Settings.prototype.get = function (name, defaultValue) {
    if (this.settings.hasOwnProperty(name)) { return this.settings[name]; }
    else { return defaultValue; }
  };
  \<close>
  \<open>hasOwnProperty\<close> is the method of \<open>Object.prototype\<close> as long as the map has no own
  property of that name, as in a new Settings.
\<close>

definition Settings_get :: "Settings \<Rightarrow> string \<Rightarrow> jsval \<Rightarrow> jsval" where
  "Settings_get this name defaultValue =
     (case obj_get (settings this) name of Some v \<Rightarrow> v | None \<Rightarrow> defaultValue)"

text \<open>
  \<^verbatim>\<open>
  Settings.prototype.set = function (name, value) {
    this.settings[name] = value;
    return value;
  };
  \<close>
  \<open>extra\<close> is the list of the names that the engine adds to \<open>Object.prototype\<close>.
\<close>

definition Settings_set :: "string list \<Rightarrow> Settings \<Rightarrow> string \<Rightarrow> jsval \<Rightarrow> jsval \<times> Settings" where
  "Settings_set extra this name v =
     (v, this\<lparr>settings := obj_assign extra (settings this) name v\<rparr>)"

text \<open>The values that are objects: \<open>Object.keys\<close> accepts them in every edition.\<close>

fun is_object :: "jsval \<Rightarrow> bool" where
  "is_object (JObject _) = True"
| "is_object (JArray _) = True"
| "is_object _ = False"

section \<open>The document tree\<close>

text \<open>
  A Document is a tree node with a canonical url and a metadata object. The children of a
  node are a JavaScript array of nodes; an element of such an array can be \<open>null\<close>
  (\<open>None\<close>), and whether one ever is, is a property of the code that fills the array.
\<close>

datatype document =
  Document (url: string) (meta: "(string \<times> jsval) list") (children: "document option list")

text \<open>
  Modelled from the spec: \<open>TreeNode.prototype.appendChild\<close> is not among the source files.
  The spec: ``\<open>appendChild(node)\<close> appends \<open>node\<close> to the end of \<open>children\<close> and returns
  it; returns the unchanged input when \<open>node\<close> is null/absent''. The first argument is the
  \<open>children\<close> array of the receiver; the result is that array after the call and the
  returned value.
\<close>

definition TreeNode_appendChild ::
  "document option list \<Rightarrow> document option \<Rightarrow> document option list \<times> document option" where
  "TreeNode_appendChild kids node =
     (case node of None \<Rightarrow> (kids, node) | Some d \<Rightarrow> (kids @ [node], node))"

text \<open>
  Modelled from the spec: \<open>Document.prototype.equals\<close> is not among the source files.
  The spec: ``\<open>equals(other)\<close>: \<open>other\<close> may be a Document or a plain url string; returns
  true iff canonical urls match exactly''.
\<close>

datatype equals_argument = OtherDocument document | OtherUrl string

fun Document_equals :: "document \<Rightarrow> equals_argument \<Rightarrow> bool" where
  "Document_equals this (OtherDocument d) = (url d = url this)"
| "Document_equals this (OtherUrl u) = (u = url this)"

text \<open>
  The Index is the root node: its \<open>children\<close> are the top-level documents, and it holds
  the three caches that \<open>update\<close> rebuilds.
\<close>

record Index =
  Index_children :: "document option list"
  documentMap :: "(string \<times> document list) list"
  documentPositions :: "(string \<times> nat list) list"
  documents :: "document list"

definition Index_new :: Index where
  "Index_new = \<lparr>Index_children = [], documentMap = [], documentPositions = [], documents = []\<rparr>"

section \<open>Index.walk\<close>

text \<open>
  \<open>Array.prototype.every\<close>, as the file's own fallback writes it: the callback is applied
  to the elements in order, and the loop returns false at the first result that is falsy.
  The callback works on a state \<open>'s\<close> and may raise.
  \<^verbatim>\<open>
  for (; i < len; i += 1) {
    if (i in this && !fun.call(thisp, this[i], i, this)) { return false; }
  }
  return true;
  \<close>
\<close>

fun arrayEvery ::
  "('a \<Rightarrow> 's \<Rightarrow> error + (jsval \<times> 's)) \<Rightarrow> 'a list \<Rightarrow> 's \<Rightarrow> error + (bool \<times> 's)" where
  "arrayEvery f [] s = Inr (True, s)"
| "arrayEvery f (x # xs) s =
     (case f x s of
        Inl e \<Rightarrow> Inl e
      | Inr (r, s1) \<Rightarrow> if \<not> truthy r then Inr (False, s1) else arrayEvery f xs s1)"

lemma size_children [termination_simp]:
  "size_list (size_option size) (children d) < size d"
  by (cases d) simp

text \<open>
  \<^verbatim>\<open>
  Index.prototype.walk = function (children, fn, scope) {
    return children.every(function (entry) {
      return fn.call(scope, entry) !== false && this.walk(entry.children, fn, scope);
    }, this);
  };
  \<close>
  The visitor \<open>fn\<close> works on a state \<open>'s\<close> (what it and its scope hold), returns a value
  and may raise; it does not change the tree that is walked. Reading \<open>entry.children\<close> of a
  null entry raises a TypeError. The loop of \<open>every\<close> is written out; \<open>walk_callback\<close> and
  \<open>Index_walk_every\<close> below give the function in the source's form.
\<close>

fun Index_walk ::
  "document option list \<Rightarrow> ('s \<Rightarrow> document option \<Rightarrow> error + (jsval \<times> 's)) \<Rightarrow> 's
     \<Rightarrow> error + (bool \<times> 's)" where
  "Index_walk [] fn s = Inr (True, s)"
| "Index_walk (entry # rest) fn s =
     (case fn s entry of
        Inl e \<Rightarrow> Inl e
      | Inr (r, s1) \<Rightarrow>
          if r = JBool False then Inr (False, s1)
          else (case entry of
                  None \<Rightarrow> Inl TypeError
                | Some d \<Rightarrow>
                    (case Index_walk (children d) fn s1 of
                       Inl e \<Rightarrow> Inl e
                     | Inr (b, s2) \<Rightarrow> if b then Index_walk rest fn s2 else Inr (False, s2))))"

text \<open>The callback that \<open>walk\<close> hands to \<open>every\<close>.\<close>

definition walk_callback ::
  "('s \<Rightarrow> document option \<Rightarrow> error + (jsval \<times> 's)) \<Rightarrow> document option \<Rightarrow> 's
     \<Rightarrow> error + (jsval \<times> 's)" where
  "walk_callback fn entry s =
     (case fn s entry of
        Inl e \<Rightarrow> Inl e
      | Inr (r, s1) \<Rightarrow>
          if r = JBool False then Inr (JBool False, s1)
          else (case entry of
                  None \<Rightarrow> Inl TypeError
                | Some d \<Rightarrow>
                    (case Index_walk (children d) fn s1 of
                       Inl e \<Rightarrow> Inl e
                     | Inr (b, s2) \<Rightarrow> Inr (JBool b, s2))))"

text \<open>The trees in which no \<open>children\<close> array holds a null, at any depth.\<close>

fun no_null_children :: "document option list \<Rightarrow> bool" where
  "no_null_children [] = True"
| "no_null_children (None # rest) = False"
| "no_null_children (Some d # rest) = (no_null_children (children d) \<and> no_null_children rest)"

text \<open>
  The depth-first pre-order sequence of the nodes of a forest: a node, then the nodes
  below it, then its later siblings. (A null is passed over; the properties are about
  forests without null.)
\<close>

fun preorder :: "document option list \<Rightarrow> document list" where
  "preorder [] = []"
| "preorder (None # rest) = preorder rest"
| "preorder (Some d # rest) = d # preorder (children d) @ preorder rest"

text \<open>
  The traversal as the spec words it: the nodes are visited one after the other, and
  the traversal ends, for good, at the first node where the visitor returns the value
  \<open>false\<close>; after any other value it goes on with the next node.
\<close>

fun visit_until_false ::
  "('s \<Rightarrow> document option \<Rightarrow> error + (jsval \<times> 's)) \<Rightarrow> document list \<Rightarrow> 's
     \<Rightarrow> error + (bool \<times> 's)" where
  "visit_until_false fn [] s = Inr (True, s)"
| "visit_until_false fn (d # ds) s =
     (case fn s (Some d) of
        Inl e \<Rightarrow> Inl e
      | Inr (r, s1) \<Rightarrow> if r = JBool False then Inr (False, s1) else visit_until_false fn ds s1)"

section \<open>Index.update\<close>

text \<open>
  The visitor of \<open>update\<close>; its state is the Index and the local counter \<open>index\<close>.
  \<^verbatim>\<open>
  function (doc) {
    if (this.documentMap[doc.url]) { this.documentMap[doc.url].push(doc); }
    else { this.documentMap[doc.url] = [doc]; }
    this.documents.push(doc);
    if (this.documentPositions[doc.url]) { this.documentPositions[doc.url].push(index); }
    else { this.documentPositions[doc.url] = [index]; }
    index += 1;
  }
  \<close>
  It has no return statement: it returns \<open>undefined\<close>. Both caches are objects created
  with \<open>{}\<close>. An own property of a cache is an array, which is truthy, and \<open>push\<close>
  appends to it. For a url that \<open>Object.prototype\<close> defines and the cache does not, the
  read is truthy too, and what it finds has no \<open>push\<close>: the call raises a TypeError. The
  write in the \<open>else\<close> branch is to a key that \<open>Object.prototype\<close> does not define, so it
  creates the own property. \<open>extra\<close> is the list of the names that the engine adds to
  \<open>Object.prototype\<close>.
\<close>

definition cache_push ::
  "string list \<Rightarrow> (string \<times> 'v list) list \<Rightarrow> string \<Rightarrow> 'v \<Rightarrow> error + (string \<times> 'v list) list" where
  "cache_push extra cache key v =
     (case obj_lookup extra cache key of
        Own vs \<Rightarrow> Inr (obj_set cache key (vs @ [v]))
      | Inherited \<Rightarrow> Inl TypeError
      | Absent \<Rightarrow> Inr (obj_set cache key [v]))"

definition update_visit ::
  "string list \<Rightarrow> Index \<times> nat \<Rightarrow> document option \<Rightarrow> error + (jsval \<times> (Index \<times> nat))" where
  "update_visit extra st entry =
     (case entry of
        None \<Rightarrow> Inl TypeError
      | Some doc \<Rightarrow>
          let (this, index) = st
          in (case cache_push extra (documentMap this) (url doc) doc of
                Inl e \<Rightarrow> Inl e
              | Inr dm \<Rightarrow>
                  let this1 = this\<lparr>documentMap := dm\<rparr>;
                      this2 = this1\<lparr>documents := documents this1 @ [doc]\<rparr>
                  in (case cache_push extra (documentPositions this2) (url doc) index of
                        Inl e \<Rightarrow> Inl e
                      | Inr dp \<Rightarrow>
                          let this3 = this2\<lparr>documentPositions := dp\<rparr>
                          in Inr (JUndefined, (this3, index + 1)))))"

text \<open>
  \<^verbatim>\<open>
  Index.prototype.update = function () {
    var index = 0;
    this.documents = [];
    this.documentMap = {};
    this.documentPositions = {};
    this.walk(this.children, function (doc) { ... }, this);
    treesaver.events.fireEvent(document, treesaver.ui.Index.events.UPDATED, {'index': this});
  };
  \<close>
  The notification is sent once the caches are rebuilt; it is outside the model.
\<close>

definition Index_update :: "string list \<Rightarrow> Index \<Rightarrow> error + Index" where
  "Index_update extra this =
     (let this0 = this\<lparr>documents := [], documentMap := [], documentPositions := []\<rparr>
      in case Index_walk (Index_children this0) (update_visit extra) (this0, 0) of
           Inl e \<Rightarrow> Inl e
         | Inr (_, (this', _)) \<Rightarrow> Inr this')"

definition Index_getNumberOfDocuments :: "Index \<Rightarrow> nat" where
  "Index_getNumberOfDocuments this = length (documents this)"

section \<open>Index.getDocumentIndex and Index.get\<close>

text \<open>
  \<open>equals\<close> stands for \<open>Document.prototype.equals\<close>, which the source calls and does not
  define: a parameter of both functions.
  \<^verbatim>\<open>
  Index.prototype.getDocumentIndex = function (doc) {
    var result = -1, i = 0;
    this.walk(this.children, function (d) {
      if (d.equals(doc)) { result = i; }
      i += 1;
    }, this);
    return result;
  };
  \<close>
\<close>

definition getDocumentIndex_visit ::
  "(document \<Rightarrow> 'q \<Rightarrow> bool) \<Rightarrow> 'q \<Rightarrow> int \<times> int \<Rightarrow> document option
     \<Rightarrow> error + (jsval \<times> (int \<times> int))" where
  "getDocumentIndex_visit equals doc st entry =
     (case entry of
        None \<Rightarrow> Inl TypeError
      | Some d \<Rightarrow>
          let (result, i) = st;
              result' = (if equals d doc then i else result)
          in Inr (JUndefined, (result', i + 1)))"

definition Index_getDocumentIndex ::
  "(document \<Rightarrow> 'q \<Rightarrow> bool) \<Rightarrow> Index \<Rightarrow> 'q \<Rightarrow> error + int" where
  "Index_getDocumentIndex equals this doc =
     (case Index_walk (Index_children this) (getDocumentIndex_visit equals doc) (- 1, 0) of
        Inl e \<Rightarrow> Inl e
      | Inr (_, (result, _)) \<Rightarrow> Inr result)"

text \<open>
  \<^verbatim>\<open>
  Index.prototype.get = function (url) {
    var result = [];
    this.walk(this.children, function (doc) {
      if (doc.equals(url)) { result.push(doc); }
    }, this);
    return result;
  };
  \<close>
\<close>

definition get_visit ::
  "(document \<Rightarrow> 'q \<Rightarrow> bool) \<Rightarrow> 'q \<Rightarrow> document list \<Rightarrow> document option
     \<Rightarrow> error + (jsval \<times> document list)" where
  "get_visit equals u result entry =
     (case entry of
        None \<Rightarrow> Inl TypeError
      | Some doc \<Rightarrow> Inr (JUndefined, if equals doc u then result @ [doc] else result))"

definition Index_get ::
  "(document \<Rightarrow> 'q \<Rightarrow> bool) \<Rightarrow> Index \<Rightarrow> 'q \<Rightarrow> error + document list" where
  "Index_get equals this u =
     (case Index_walk (Index_children this) (get_visit equals u) [] of
        Inl e \<Rightarrow> Inl e
      | Inr (_, result) \<Rightarrow> Inr result)"

section \<open>Index.parseEntry and Index.parse\<close>

text \<open>
  The functions the parser calls and the source files do not define are parameters:
  \<open>treesaver.network.absoluteURL\<close> and \<open>treesaver.uri.stripHash\<close>, taken as functions
  that return a string on every argument (the spec: pure transforms of a url), and
  \<open>treesaver.json.parse\<close>, which either raises (\<open>Inl\<close>, with the text of what it
  raised) or returns the decoded value; the last two parameters are the edition of
  \<open>Object.keys\<close> and the list of the names that the engine adds to \<open>Object.prototype\<close>
  (neither \<open>url\<close> nor \<open>children\<close> is a name that an engine defines there).
  \<open>new Document(url, meta)\<close> is the constructor of the datatype, with no children yet.
\<close>

record collaborators =
  absoluteURL :: "jsval \<Rightarrow> string"
  stripHash :: "string \<Rightarrow> string"
  json_parse :: "string \<Rightarrow> string + jsval"
  keys_es5 :: bool
  prototype_names :: "string list"

text \<open>
  \<open>treesaver.debug.warn\<close> appends its message to a log, which the functions thread.
\<close>

type_synonym log = "string list"

definition warn :: "string \<Rightarrow> log \<Rightarrow> log" where
  "warn msg lg = lg @ [msg]"

text \<open>
  The property read \<open>v[key]\<close>. On \<open>undefined\<close> and \<open>null\<close> it raises a TypeError. On an
  object it is the own property, or \<open>undefined\<close>. On the other values it is \<open>undefined\<close>:
  the code reads \<open>'url'\<close> and \<open>'children'\<close>, which are no properties of an array, a
  string, a number or a boolean, nor of \<open>Object.prototype\<close>, and the own keys of the
  entry.
\<close>

fun js_prop :: "jsval \<Rightarrow> string \<Rightarrow> error + jsval" where
  "js_prop JUndefined key = Inl TypeError"
| "js_prop JNull key = Inl TypeError"
| "js_prop (JObject kvs) key = Inr (case obj_get kvs key of None \<Rightarrow> JUndefined | Some v \<Rightarrow> v)"
| "js_prop v key = Inr JUndefined"

text \<open>
  \<^verbatim>\<open>
  Object.keys(entry).forEach(function (key) { meta[key] = entry[key]; });
  \<close>
  \<open>meta\<close> is an object created with \<open>{}\<close>: the write is \<open>obj_assign\<close>. The read is of an
  own key of the entry, and finds the own property.
\<close>

fun copy_fields ::
  "string list \<Rightarrow> jsval \<Rightarrow> string list \<Rightarrow> (string \<times> jsval) list
     \<Rightarrow> error + (string \<times> jsval) list" where
  "copy_fields extra entry [] m = Inr m"
| "copy_fields extra entry (key # keys) m =
     (case js_prop entry key of
        Inl e \<Rightarrow> Inl e
      | Inr v \<Rightarrow> copy_fields extra entry keys (obj_assign extra m key v))"

lemma size_map_of:
  "map_of kvs k = Some v \<Longrightarrow> size v < Suc (size_list (size_prod (\<lambda>_. 0) size) kvs)"
  by (induction kvs) (auto split: if_splits)

lemma size_js_prop [termination_simp]:
  "js_prop entry key = Inr (JArray cs) \<Longrightarrow> size_list size cs < size entry"
  by (cases entry) (auto simp: obj_get_def split: option.splits dest: size_map_of)

text \<open>
  \<^verbatim>\<open>
  Index.prototype.parseEntry = function(entry) {
    var url = entry['url'], children = entry['children'], meta = {}, doc = null;
    if (!url) {
      treesaver.debug.warn('Ignored document index entry without URL');
      return null;
    }
    url = treesaver.uri.stripHash(treesaver.network.absoluteURL(url));
    Object.keys(entry).forEach(function (key) { meta[key] = entry[key]; });
    doc = new treesaver.ui.Document(url, meta);
    if (children && Array.isArray(children)) {
      children.forEach(function (child) {
        doc.appendChild(this.parseEntry(child));
      }, this);
    }
    return doc;
  };
  \<close>
  \<open>parseEntry_children\<close> is the \<open>forEach\<close> loop over the children, applied to the
  \<open>children\<close> array of \<open>doc\<close>; every array is truthy, so the test of \<open>children\<close> is the
  test that it is an array.
\<close>

function Index_parseEntry ::
    "collaborators \<Rightarrow> jsval \<Rightarrow> log \<Rightarrow> error + (document option \<times> log)"
  and parseEntry_children ::
    "collaborators \<Rightarrow> jsval list \<Rightarrow> document option list \<Rightarrow> log
       \<Rightarrow> error + (document option list \<times> log)" where
  "Index_parseEntry env entry lg =
     (case js_prop entry ''url'' of
        Inl e \<Rightarrow> Inl e
      | Inr u \<Rightarrow>
     (case js_prop entry ''children'' of
        Inl e \<Rightarrow> Inl e
      | Inr chs \<Rightarrow>
          if \<not> truthy u
          then Inr (None, warn ''Ignored document index entry without URL'' lg)
          else
            (case Object_keys (keys_es5 env) entry of
               Inl e \<Rightarrow> Inl e
             | Inr keys \<Rightarrow>
            (case copy_fields (prototype_names env) entry keys [] of
               Inl e \<Rightarrow> Inl e
             | Inr m \<Rightarrow>
            (case chs of
               JArray cs \<Rightarrow>
                 (case parseEntry_children env cs [] lg of
                    Inl e \<Rightarrow> Inl e
                  | Inr (kids, lg') \<Rightarrow>
                      Inr (Some (Document (stripHash env (absoluteURL env u)) m kids), lg'))
             | _ \<Rightarrow> Inr (Some (Document (stripHash env (absoluteURL env u)) m []), lg))))))"
| "parseEntry_children env [] kids lg = Inr (kids, lg)"
| "parseEntry_children env (child # rest) kids lg =
     (case Index_parseEntry env child lg of
        Inl e \<Rightarrow> Inl e
      | Inr (node, lg') \<Rightarrow>
          parseEntry_children env rest (fst (TreeNode_appendChild kids node)) lg')"
  by pat_completeness auto
termination
  by (relation "measure (\<lambda>x. case x of
                    Inl (env, entry, lg) \<Rightarrow> 2 * size entry
                  | Inr (env, cs, kids, lg) \<Rightarrow> 2 * size_list size cs + 1)")
     (auto dest: size_js_prop)

text \<open>The first loop of \<open>parse\<close>: \<open>index.map(function (entry) { return this.parseEntry(entry); })\<close>.\<close>

fun parse_map ::
  "collaborators \<Rightarrow> jsval list \<Rightarrow> log \<Rightarrow> error + (document option list \<times> log)" where
  "parse_map env [] lg = Inr ([], lg)"
| "parse_map env (entry # rest) lg =
     (case Index_parseEntry env entry lg of
        Inl e \<Rightarrow> Inl e
      | Inr (r, lg1) \<Rightarrow>
          (case parse_map env rest lg1 of
             Inl e \<Rightarrow> Inl e
           | Inr (rs, lg2) \<Rightarrow> Inr (r # rs, lg2)))"

text \<open>The last loop of \<open>parse\<close>:
  \<open>result.map(function (entry) { return this.appendChild(entry); })\<close>.\<close>

fun append_map :: "Index \<Rightarrow> document option list \<Rightarrow> document option list \<times> Index" where
  "append_map this [] = ([], this)"
| "append_map this (entry # rest) =
     (let (kids, returned) = TreeNode_appendChild (Index_children this) entry;
          (rs, this') = append_map (this\<lparr>Index_children := kids\<rparr>) rest
      in (returned # rs, this'))"

text \<open>
  \<^verbatim>\<open>
  Index.prototype.parse = function (index) {
    var result = [];
    if (!index) { return []; }
    if (typeof index === 'string') {
      try { index = treesaver.json.parse(index); }
      catch (e) {
        treesaver.debug.warn('Tried to parse TOC index file, but failed: ' + e);
        return [];
      }
    }
    if (!Array.isArray(index)) {
      treesaver.debug.warn('Document index should be an array of objects.');
      return [];
    }
    result = index.map(function (entry) { return this.parseEntry(entry); }, this);
    result = result.filter(function (entry) { return entry !== null; });
    return result.map(function (entry) { return this.appendChild(entry); }, this);
  };
  \<close>
  The result is the returned array, the Index after the call and the log.
\<close>

definition decode_index :: "collaborators \<Rightarrow> jsval \<Rightarrow> string + jsval" where
  "decode_index env index =
     (case index of JString s \<Rightarrow> json_parse env s | _ \<Rightarrow> Inr index)"

definition Index_parse ::
  "collaborators \<Rightarrow> Index \<Rightarrow> jsval \<Rightarrow> log
     \<Rightarrow> error + (document option list \<times> Index \<times> log)" where
  "Index_parse env this index lg =
     (if \<not> truthy index then Inr ([], this, lg)
      else
        (case decode_index env index of
           Inl e \<Rightarrow>
             Inr ([], this, warn (''Tried to parse TOC index file, but failed: '' @ e) lg)
         | Inr index' \<Rightarrow>
             (case index' of
                JArray entries \<Rightarrow>
                  (case parse_map env entries lg of
                     Inl e \<Rightarrow> Inl e
                   | Inr (result, lg') \<Rightarrow>
                       (let result' = filter (\<lambda>entry. entry \<noteq> None) result;
                            (returned, this') = append_map this result'
                        in Inr (returned, this', lg')))
              | _ \<Rightarrow>
                  Inr ([], this, warn ''Document index should be an array of objects.'' lg))))"

section \<open>Vocabulary of the properties\<close>

text \<open>An entry has a url when reading its \<open>url\<close> field gives a truthy value.\<close>

definition has_url :: "jsval \<Rightarrow> bool" where
  "has_url entry = (case js_prop entry ''url'' of Inl _ \<Rightarrow> False | Inr u \<Rightarrow> truthy u)"

text \<open>
  The entries that \<open>parseEntry\<close> can read: the entry is neither \<open>null\<close> nor \<open>undefined\<close>
  (on those the read of \<open>entry['url']\<close> raises), and when it has a url and its \<open>children\<close>
  field is an array, the elements of that array can be read in turn. A descriptor, that
  is an object whose \<open>children\<close>, if any, are descriptors, is such an entry.
\<close>

lemma size_js_prop_member [termination_simp]:
  "js_prop entry key = Inr (JArray cs) \<Longrightarrow> c \<in> set cs \<Longrightarrow> size c < size entry"
  using size_js_prop [of entry key cs] size_list_estimation' [of c cs "size c" size]
  by simp

function readable_entry :: "jsval \<Rightarrow> bool" where
  "readable_entry entry =
     (case js_prop entry ''url'' of
        Inl _ \<Rightarrow> False
      | Inr u \<Rightarrow>
          if truthy u
          then (case js_prop entry ''children'' of
                  Inr (JArray cs) \<Rightarrow> list_all readable_entry cs
                | _ \<Rightarrow> True)
          else True)"
  by pat_completeness auto
termination
  by (relation "measure size") (auto dest: size_js_prop_member)

text \<open>
  \<open>parses_to env entry r\<close>: \<open>parseEntry\<close> returns \<open>r\<close> on the entry, whatever the log holds
  before, and \<open>r\<close> is null exactly for an entry without url.
\<close>

definition parses_to :: "collaborators \<Rightarrow> jsval \<Rightarrow> document option \<Rightarrow> bool" where
  "parses_to env entry r \<longleftrightarrow>
     (\<forall>l. \<exists>l'. Index_parseEntry env entry l = Inr (r, l')) \<and> (r = None \<longleftrightarrow> \<not> has_url entry)"

text \<open>
  The Index values that calls of \<open>parse\<close> can produce, from a new Index: a call that
  raises does so in its first loop, before anything is appended, and leaves the Index as
  it was.
\<close>

inductive parsed_index :: "collaborators \<Rightarrow> Index \<Rightarrow> bool" for env where
  fresh: "parsed_index env Index_new"
| parse: "parsed_index env this \<Longrightarrow> Index_parse env this index lg = Inr (returned, this', lg')
            \<Longrightarrow> parsed_index env this'"

text \<open>What the three visitors do to their state at a node, and the contents of the caches.\<close>

definition get_step :: "(document \<Rightarrow> 'q \<Rightarrow> bool) \<Rightarrow> 'q \<Rightarrow> document list \<Rightarrow> document \<Rightarrow> document list" where
  "get_step equals u result doc = (if equals doc u then result @ [doc] else result)"

definition getDocumentIndex_step :: "(document \<Rightarrow> 'q \<Rightarrow> bool) \<Rightarrow> 'q \<Rightarrow> int \<times> int \<Rightarrow> document \<Rightarrow> int \<times> int" where
  "getDocumentIndex_step equals doc st d = (if equals d doc then snd st else fst st, snd st + 1)"

definition update_step :: "Index \<times> nat \<Rightarrow> document \<Rightarrow> Index \<times> nat" where
  "update_step st d =
     (let (this, n) = st
      in (this\<lparr>documentMap :=
                 obj_set (documentMap this) (url d)
                   ((case obj_get (documentMap this) (url d) of Some xs \<Rightarrow> xs | None \<Rightarrow> []) @ [d]),
               documents := documents this @ [d],
               documentPositions :=
                 obj_set (documentPositions this) (url d)
                   ((case obj_get (documentPositions this) (url d) of Some xs \<Rightarrow> xs | None \<Rightarrow> [])
                    @ [n])\<rparr>,
          Suc n))"

definition groups :: "document list \<Rightarrow> string \<Rightarrow> document list option" where
  "groups ds u = (if u \<in> url ` set ds then Some (filter (\<lambda>d. url d = u) ds) else None)"

definition places :: "document list \<Rightarrow> string \<Rightarrow> nat list option" where
  "places ds u =
     (if u \<in> url ` set ds then Some (filter (\<lambda>i. url (ds ! i) = u) [0..<length ds]) else None)"

text \<open>
  \<open>last_match P xs r\<close>: \<open>r\<close> is the position of the last element of \<open>xs\<close> that satisfies
  \<open>P\<close>, or \<open>-1\<close> when there is none.
\<close>

definition last_match :: "('a \<Rightarrow> bool) \<Rightarrow> 'a list \<Rightarrow> int \<Rightarrow> bool" where
  "last_match P xs r \<longleftrightarrow>
     (r = - 1 \<and> (\<forall>x \<in> set xs. \<not> P x))
     \<or> (0 \<le> r \<and> nat r < length xs \<and> P (xs ! nat r)
         \<and> (\<forall>j. nat r < j \<and> j < length xs \<longrightarrow> \<not> P (xs ! j)))"

text \<open>Collaborators for the examples: a fixed host, the fragment cut at the first \<open>#\<close>, and a
  decoder that knows two texts.\<close>

definition example_env :: collaborators where
  "example_env =
     \<lparr>absoluteURL = (\<lambda>v. case v of JString s \<Rightarrow> ''http://h'' @ s | _ \<Rightarrow> ''http://h/''),
      stripHash = takeWhile (\<lambda>c. c \<noteq> CHR ''#''),
      json_parse = (\<lambda>s. if s = ''5'' then Inr (JNumber 5)
                          else if s = ''[]'' then Inr (JArray [])
                          else Inl ''SyntaxError''),
      keys_es5 = True,
      prototype_names = browser_names\<rparr>"

section \<open>Properties of treesaver.array.remove\<close>

lemma array_slice_in_range:
  "0 \<le> k \<Longrightarrow> k \<le> int (length xs) \<Longrightarrow> array_slice xs k = drop (nat k) xs"
  by (simp add: array_slice_def Let_def)

lemma array_remove_range:
  assumes "0 \<le> from" "from \<le> to" "to < int (length a)" "length a \<le> 4294967295"
  shows "array_remove a from (Some to) =
           Inr (int (length a) - (to - from + 1),
                take (nat from) a @ map (\<lambda>x. Some (read_slot x)) (drop (nat to + 1) a))"
proof -
  have tf: "(if to = 0 then from else to) = to" using assms by auto
  have st: "array_slice a (to + 1) = drop (nat to + 1) a"
    using assms by (simp add: array_slice_in_range nat_add_distrib)
  have sl: "array_set_length a from = Inr (take (nat from) a)"
    using assms by (auto simp: array_set_length_def)
  show ?thesis
    using assms by (simp add: array_remove_def tf st sl array_push_apply_def Let_def)
qed

lemma array_remove_single:
  assumes "0 \<le> from" "from < int (length a)"
  shows "array_remove a from None = array_remove a from (Some from)"
  using assms by (simp add: array_remove_def)

lemma dense_refill: "None \<notin> set xs \<Longrightarrow> map (\<lambda>x. Some (read_slot x)) xs = xs"
proof (induction xs)
  case Nil
  then show ?case by simp
next
  case (Cons x xs)
  then show ?case by (cases x) (simp_all add: read_slot_def)
qed

lemma read_refill: "map read_slot (map (\<lambda>x. Some (read_slot x)) xs) = map read_slot xs"
  by (simp add: read_slot_def)

text \<open>
  Claim C10. For an array \<open>a\<close> and integers \<open>0 \<le> from \<le> to < a.length\<close>,
  \<open>remove(a, from, to)\<close> returns the new length \<open>a.length - (to - from + 1)\<close> and leaves
  in \<open>a\<close> the original sequence without the elements at positions \<open>from\<close> to \<open>to\<close>, the
  others in their order: the values read from the array are those of the original
  (a hole of the tail becomes an explicit \<open>undefined\<close>), and an array without holes is
  exactly the original with the range cut out. With \<open>to\<close> omitted the call is the call
  with \<open>to = from\<close>: the one element at \<open>from\<close> is removed. (An array has at most
  \<open>2^32 - 1\<close> elements.)
\<close>

theorem array_remove_deletes_range:
  assumes "0 \<le> from" "from \<le> to" "to < int (length a)" "length a \<le> 4294967295"
  shows "\<exists>a'. array_remove a from (Some to) = Inr (int (length a) - (to - from + 1), a')
           \<and> int (length a') = int (length a) - (to - from + 1)
           \<and> map read_slot a' = take (nat from) (map read_slot a) @ drop (nat to + 1) (map read_slot a)
           \<and> (None \<notin> set a \<longrightarrow> a' = take (nat from) a @ drop (nat to + 1) a)
           \<and> (from = to \<longrightarrow> array_remove a from None = array_remove a from (Some to))"
proof -
  let ?a' = "take (nat from) a @ map (\<lambda>x. Some (read_slot x)) (drop (nat to + 1) a)"
  have 1: "array_remove a from (Some to) = Inr (int (length a) - (to - from + 1), ?a')"
    using assms by (rule array_remove_range)
  have 2: "int (length ?a') = int (length a) - (to - from + 1)"
    using assms by (simp add: min_def)
  have 3: "map read_slot ?a' = take (nat from) (map read_slot a) @ drop (nat to + 1) (map read_slot a)"
    by (simp add: read_refill take_map drop_map del: map_map)
  have 4: "None \<notin> set a \<longrightarrow> ?a' = take (nat from) a @ drop (nat to + 1) a"
  proof
    assume "None \<notin> set a"
    then have "None \<notin> set (drop (nat to + 1) a)"
      by (meson in_set_dropD)
    then show "?a' = take (nat from) a @ drop (nat to + 1) a"
      by (simp add: dense_refill)
  qed
  have 5: "from = to \<longrightarrow> array_remove a from None = array_remove a from (Some to)"
    using assms array_remove_single by auto
  from 1 2 3 4 5 show ?thesis by blast
qed

theorem array_remove_deletes_range_witness:
  "array_remove [Some (JString ''a''), Some (JString ''b''), Some (JString ''c''), Some (JString ''d'')] 1 (Some 2)
     = Inr (2, [Some (JString ''a''), Some (JString ''d'')])
   \<and> array_remove [Some (JString ''a''), Some (JString ''b''), Some (JString ''c'')] 1 None
     = Inr (2, [Some (JString ''a''), Some (JString ''c'')])"
  using array_remove_deletes_range [of 1 2 "[Some (JString ''a''), Some (JString ''b''), Some (JString ''c''), Some (JString ''d'')]"]
    array_remove_deletes_range [of 1 1 "[Some (JString ''a''), Some (JString ''b''), Some (JString ''c'')]"]
  by (auto simp: nat_add_distrib)

section \<open>Properties of treesaver.ui.Settings\<close>

text \<open>
  Claim C9. For every settings object \<open>s\<close> (and for every falsy \<open>s\<close>, and for every value
  at all where \<open>Object.keys\<close> converts its argument), the constructor returns a Settings
  whose map is empty, and \<open>get(k, d)\<close> on it returns the default \<open>d\<close> for every key \<open>k\<close>:
  the contents of \<open>s\<close> are never copied.
\<close>

theorem Settings_initial_contents_ignored:
  assumes "is_object s \<or> \<not> truthy s \<or> \<not> es5"
  shows "\<exists>this. Settings_new es5 s = Inr this \<and> settings this = []
           \<and> (\<forall>k d. Settings_get this k d = d)"
proof -
  have "Settings_new es5 s = Inr \<lparr>settings = []\<rparr>"
    using assms by (cases s) (auto simp: Settings_new_def Let_def)
  then show ?thesis
    by (simp add: Settings_get_def obj_get_def)
qed

theorem Settings_initial_contents_ignored_witness:
  "is_object (JObject [(''zoom'', JNumber 2)])
   \<and> (\<exists>this. Settings_new True (JObject [(''zoom'', JNumber 2)]) = Inr this
          \<and> settings this = [] \<and> Settings_get this ''zoom'' (JNumber 1) = JNumber 1)"
  using Settings_initial_contents_ignored [of "JObject [(''zoom'', JNumber 2)]" True]
  by auto

section \<open>Properties of Index.walk\<close>

lemma walk_callback_apply:
  "walk_callback fn entry s =
     (case fn s entry of
        Inl e \<Rightarrow> Inl e
      | Inr (r, s1) \<Rightarrow>
          if r = JBool False then Inr (JBool False, s1)
          else (case entry of
                  None \<Rightarrow> Inl TypeError
                | Some d \<Rightarrow>
                    (case Index_walk (children d) fn s1 of
                       Inl e \<Rightarrow> Inl e
                     | Inr (b, s2) \<Rightarrow> Inr (JBool b, s2))))"
  by (simp add: walk_callback_def)

lemma Index_walk_every: "Index_walk cs fn s = arrayEvery (walk_callback fn) cs s"
proof (induction cs fn s rule: Index_walk.induct)
  case (1 fn s)
  show ?case by simp
next
  case (2 entry rest fn s)
  show ?case
  proof (cases "fn s entry")
    case (Inl e)
    then have "walk_callback fn entry s = Inl e"
      by (simp add: walk_callback_apply)
    with Inl show ?thesis by simp
  next
    case (Inr p)
    obtain r s1 where p: "p = (r, s1)" by (cases p)
    show ?thesis
    proof (cases "r = JBool False")
      case True
      with Inr p have "walk_callback fn entry s = Inr (JBool False, s1)"
        by (simp add: walk_callback_apply)
      with Inr p True show ?thesis by simp
    next
      case False
      note nf = this
      show ?thesis
      proof (cases entry)
        case None
        with Inr p nf have "walk_callback fn entry s = Inl TypeError"
          by (simp add: walk_callback_apply)
        with Inr p nf None show ?thesis by simp
      next
        case (Some d)
        show ?thesis
        proof (cases "Index_walk (children d) fn s1")
          case (Inl e)
          with Inr p nf Some have "walk_callback fn entry s = Inl e"
            by (simp add: walk_callback_apply)
          with Inr p nf Some Inl show ?thesis by simp
        next
          case (Inr q)
          obtain b s2 where q: "q = (b, s2)" by (cases q)
          from "2.IH"(2) [OF \<open>fn s entry = Inr p\<close> p [symmetric] nf Some Inr q [symmetric]]
          have ih: "b \<Longrightarrow> Index_walk rest fn s2 = arrayEvery (walk_callback fn) rest s2" .
          from \<open>fn s entry = Inr p\<close> p nf Some Inr q
          have "walk_callback fn entry s = Inr (JBool b, s2)"
            by (simp add: walk_callback_apply)
          with \<open>fn s entry = Inr p\<close> p nf Some Inr q ih show ?thesis by simp
        qed
      qed
    qed
  qed
qed

lemma visit_until_false_append:
  "visit_until_false fn (xs @ ys) s =
     (case visit_until_false fn xs s of
        Inl e \<Rightarrow> Inl e
      | Inr (b, s') \<Rightarrow> if b then visit_until_false fn ys s' else Inr (False, s'))"
  by (induction xs arbitrary: s) (auto split: sum.splits)

lemma walk_flat:
  "no_null_children cs \<Longrightarrow> Index_walk cs fn s = visit_until_false fn (preorder cs) s"
proof (induction cs fn s rule: Index_walk.induct)
  case (1 fn s)
  show ?case by simp
next
  case (2 entry rest fn s)
  from "2.prems" obtain d where d: "entry = Some d"
    and nd: "no_null_children (children d)" and nr: "no_null_children rest"
    by (cases entry) auto
  show ?case
  proof (cases "fn s entry")
    case (Inl e)
    with d show ?thesis by simp
  next
    case (Inr p)
    obtain r s1 where p: "p = (r, s1)" by (cases p)
    show ?thesis
    proof (cases "r = JBool False")
      case True
      with Inr p d show ?thesis by simp
    next
      case False
      from "2.IH"(1) [OF Inr p [symmetric] False d nd]
      have sub: "Index_walk (children d) fn s1 = visit_until_false fn (preorder (children d)) s1" .
      show ?thesis
      proof (cases "Index_walk (children d) fn s1")
        case (Inl e)
        then have "visit_until_false fn (preorder (children d)) s1 = Inl e"
          using sub by simp
        with Inr p False d Inl show ?thesis
          by (simp add: visit_until_false_append)
      next
        case (Inr q)
        obtain b s2 where q: "q = (b, s2)" by (cases q)
        from "2.IH"(2) [OF \<open>fn s entry = Inr p\<close> p [symmetric] False d Inr q [symmetric] _ nr]
        have "b \<Longrightarrow> Index_walk rest fn s2 = visit_until_false fn (preorder rest) s2" .
        moreover have "visit_until_false fn (preorder (children d)) s1 = Inr (b, s2)"
          using sub Inr q by simp
        ultimately show ?thesis
          using \<open>fn s entry = Inr p\<close> p False d Inr q
          by (simp add: visit_until_false_append)
      qed
    qed
  qed
qed

text \<open>
  Claim C1. On every forest of nodes and for every visitor, \<open>walk\<close> is the traversal in
  depth-first pre-order that ends for good at the first node where the visitor returns
  the value \<open>false\<close>: no node after it in the pre-order sequence is visited, be it a
  child, a sibling or a sibling of an ancestor. After any other value, the falsy ones
  included, the traversal goes on with the children of the node and then with the rest.
\<close>

theorem walk_preorder_until_false:
  assumes "no_null_children cs"
  shows "Index_walk cs fn s = visit_until_false fn (preorder cs) s"
  using assms by (rule walk_flat)

theorem walk_preorder_until_false_witness:
  "no_null_children
     [Some (Document ''/a'' [] [Some (Document ''/b'' [] [Some (Document ''/c'' [] [])]),
                                Some (Document ''/d'' [] [])]),
      Some (Document ''/e'' [] [])]
   \<and> Index_walk
        [Some (Document ''/a'' [] [Some (Document ''/b'' [] [Some (Document ''/c'' [] [])]),
                                   Some (Document ''/d'' [] [])]),
         Some (Document ''/e'' [] [])]
        (\<lambda>s entry. case entry of
                      None \<Rightarrow> Inl TypeError
                    | Some d \<Rightarrow>
                        Inr (if url d = ''/c'' then JBool False
                             else if url d = ''/a'' then JNull
                             else if url d = ''/b'' then JNumber 0
                             else JUndefined,
                             s @ [url d]))
        []
      = Inr (False, [''/a'', ''/b'', ''/c''])
   \<and> Index_walk
        [Some (Document ''/a'' [] [Some (Document ''/b'' [] [Some (Document ''/c'' [] [])]),
                                   Some (Document ''/d'' [] [])]),
         Some (Document ''/e'' [] [])]
        (\<lambda>s entry. case entry of
                      None \<Rightarrow> Inl TypeError
                    | Some d \<Rightarrow>
                        Inr (if url d = ''/a'' then JNull
                             else if url d = ''/b'' then JNumber 0
                             else if url d = ''/c'' then JBool True
                             else JUndefined,
                             s @ [url d]))
        []
      = Inr (True, [''/a'', ''/b'', ''/c'', ''/d'', ''/e''])"
proof -
  let ?forest = "[Some (Document ''/a'' [] [Some (Document ''/b'' [] [Some (Document ''/c'' [] [])]),
                                Some (Document ''/d'' [] [])]),
      Some (Document ''/e'' [] [])]"
  have h: "no_null_children ?forest" by simp
  have p: "preorder ?forest = [Document ''/a'' [] [Some (Document ''/b'' [] [Some (Document ''/c'' [] [])]),
                                Some (Document ''/d'' [] [])], Document ''/b'' [] [Some (Document ''/c'' [] [])],
       Document ''/c'' [] [], Document ''/d'' [] [], Document ''/e'' [] []]" by simp
  show ?thesis
    unfolding walk_preorder_until_false [OF h] p using h by simp
qed

lemma visit_never_false:
  assumes "\<And>s d. fn s (Some d) = Inr (JUndefined, g s d)"
  shows "visit_until_false fn ds s = Inr (True, foldl g s ds)"
  by (induction ds arbitrary: s) (simp_all add: assms)

lemma walk_full:
  assumes "no_null_children cs" and "\<And>s d. fn s (Some d) = Inr (JUndefined, g s d)"
  shows "Index_walk cs fn s = Inr (True, foldl g s (preorder cs))"
  using assms by (simp add: walk_flat visit_never_false)

section \<open>Properties of Index.get and Index.getDocumentIndex\<close>

subsection \<open>get\<close>

lemma get_visit_step: "get_visit equals u result (Some d) = Inr (JUndefined, get_step equals u result d)"
  by (simp add: get_visit_def get_step_def)

lemma foldl_get_step: "foldl (get_step equals u) acc ds = acc @ filter (\<lambda>d. equals d u) ds"
  by (induction ds arbitrary: acc) (simp_all add: get_step_def)

text \<open>
  Claim C6. \<open>get(url)\<close> walks the whole tree and returns the documents for which
  \<open>equals(url)\<close> holds, in depth-first pre-order: always a sequence, which is empty when
  no document matches.
\<close>

theorem get_all_matches_in_preorder:
  assumes "no_null_children (Index_children this)"
  shows "Index_get equals this u = Inr (filter (\<lambda>d. equals d u) (preorder (Index_children this)))
         \<and> ((\<forall>d \<in> set (preorder (Index_children this)). \<not> equals d u)
              \<longrightarrow> Index_get equals this u = Inr [])"
proof -
  have "Index_get equals this u = Inr (filter (\<lambda>d. equals d u) (preorder (Index_children this)))"
    using assms
    by (simp add: Index_get_def walk_full [where g = "get_step equals u"] get_visit_step
        foldl_get_step)
  then show ?thesis by (simp add: filter_empty_conv)
qed

theorem get_all_matches_in_preorder_witness:
  "no_null_children [Some (Document ''/a'' [] [Some (Document ''/b'' [] [])]), Some (Document ''/a'' [(''n'', JNumber 2)] [])]
   \<and> Index_get Document_equals
        \<lparr>Index_children = [Some (Document ''/a'' [] [Some (Document ''/b'' [] [])]),
                            Some (Document ''/a'' [(''n'', JNumber 2)] [])],
         documentMap = [], documentPositions = [], documents = []\<rparr>
        (OtherUrl ''/a'')
      = Inr [Document ''/a'' [] [Some (Document ''/b'' [] [])], Document ''/a'' [(''n'', JNumber 2)] []]
   \<and> Index_get Document_equals
        \<lparr>Index_children = [Some (Document ''/a'' [] [Some (Document ''/b'' [] [])]),
                            Some (Document ''/a'' [(''n'', JNumber 2)] [])],
         documentMap = [], documentPositions = [], documents = []\<rparr>
        (OtherUrl ''missing-url'')
      = Inr []"
proof -
  let ?idx = "\<lparr>Index_children = [Some (Document ''/a'' [] [Some (Document ''/b'' [] [])]),
                            Some (Document ''/a'' [(''n'', JNumber 2)] [])],
         documentMap = [], documentPositions = [], documents = []\<rparr>"
  have h: "no_null_children (Index_children ?idx)" by simp
  show ?thesis
    using get_all_matches_in_preorder [OF h, of Document_equals "OtherUrl ''/a''"]
      get_all_matches_in_preorder [OF h, of Document_equals "OtherUrl ''missing-url''"] h
    by simp
qed

subsection \<open>getDocumentIndex\<close>

lemma getDocumentIndex_visit_step:
  "getDocumentIndex_visit equals doc st (Some d) = Inr (JUndefined, getDocumentIndex_step equals doc st d)"
  by (cases st) (simp add: getDocumentIndex_visit_def getDocumentIndex_step_def)

lemma getDocumentIndex_step_apply:
  "getDocumentIndex_step equals doc (r, i) d = (if equals d doc then i else r, i + 1)"
  by (simp add: getDocumentIndex_step_def)

lemma last_match_snoc:
  assumes "last_match P xs r"
  shows "last_match P (xs @ [x]) (if P x then int (length xs) else r)"
proof (cases "P x")
  case True
  then show ?thesis by (auto simp: last_match_def)
next
  case False
  from assms show ?thesis
    unfolding last_match_def
  proof (elim disjE conjE)
    assume "r = - 1" "\<forall>x \<in> set xs. \<not> P x"
    with False show "(if P x then int (length xs) else r) = - 1 \<and> (\<forall>x\<in>set (xs @ [x]). \<not> P x) \<or>
      0 \<le> (if P x then int (length xs) else r) \<and> nat (if P x then int (length xs) else r) < length (xs @ [x]) \<and>
      P ((xs @ [x]) ! nat (if P x then int (length xs) else r)) \<and>
      (\<forall>j. nat (if P x then int (length xs) else r) < j \<and> j < length (xs @ [x]) \<longrightarrow> \<not> P ((xs @ [x]) ! j))"
      by simp
  next
    assume r: "0 \<le> r" "nat r < length xs" "P (xs ! nat r)"
      and later: "\<forall>j. nat r < j \<and> j < length xs \<longrightarrow> \<not> P (xs ! j)"
    have "\<forall>j. nat r < j \<and> j < length (xs @ [x]) \<longrightarrow> \<not> P ((xs @ [x]) ! j)"
    proof (intro allI impI)
      fix j assume j: "nat r < j \<and> j < length (xs @ [x])"
      show "\<not> P ((xs @ [x]) ! j)"
      proof (cases "j < length xs")
        case True
        with j later show ?thesis by (simp add: nth_append)
      next
        case False
        with j have "j = length xs" by simp
        with \<open>\<not> P x\<close> show ?thesis by simp
      qed
    qed
    with r False show "(if P x then int (length xs) else r) = - 1 \<and> (\<forall>x\<in>set (xs @ [x]). \<not> P x) \<or>
      0 \<le> (if P x then int (length xs) else r) \<and> nat (if P x then int (length xs) else r) < length (xs @ [x]) \<and>
      P ((xs @ [x]) ! nat (if P x then int (length xs) else r)) \<and>
      (\<forall>j. nat (if P x then int (length xs) else r) < j \<and> j < length (xs @ [x]) \<longrightarrow> \<not> P ((xs @ [x]) ! j))"
      by (simp add: nth_append)
  qed
qed

lemma foldl_getDocumentIndex_step:
  "\<exists>r. foldl (getDocumentIndex_step equals doc) (- 1, 0) ds = (r, int (length ds))
       \<and> last_match (\<lambda>d. equals d doc) ds r"
proof (induction ds rule: rev_induct)
  case Nil
  show ?case by (simp add: last_match_def)
next
  case (snoc x xs)
  then obtain r where f: "foldl (getDocumentIndex_step equals doc) (- 1, 0) xs = (r, int (length xs))"
    and l: "last_match (\<lambda>d. equals d doc) xs r" by blast
  from last_match_snoc [OF l, of x] f show ?case
    by (simp add: getDocumentIndex_step_apply)
qed

text \<open>
  Claim C3. \<open>getDocumentIndex(doc)\<close> walks the whole tree and returns the pre-order
  position of the last document for which \<open>equals(doc)\<close> holds, or \<open>-1\<close> when there is
  none: no matching document stands after the returned position, so of two documents
  with the same url it is the later one that is found.
\<close>

theorem getDocumentIndex_last_match:
  assumes "no_null_children (Index_children this)"
  shows "\<exists>r. Index_getDocumentIndex equals this doc = Inr r
           \<and> ((r = - 1 \<and> (\<forall>d \<in> set (preorder (Index_children this)). \<not> equals d doc))
              \<or> (0 \<le> r \<and> nat r < length (preorder (Index_children this))
                 \<and> equals (preorder (Index_children this) ! nat r) doc
                 \<and> (\<forall>j. nat r < j \<and> j < length (preorder (Index_children this))
                        \<longrightarrow> \<not> equals (preorder (Index_children this) ! j) doc)))
           \<and> (\<forall>i < length (preorder (Index_children this)).
                 equals (preorder (Index_children this) ! i) doc \<longrightarrow> int i \<le> r)"
proof -
  let ?pre = "preorder (Index_children this)"
  obtain r where f: "foldl (getDocumentIndex_step equals doc) (- 1, 0) ?pre = (r, int (length ?pre))"
    and l: "last_match (\<lambda>d. equals d doc) ?pre r"
    using foldl_getDocumentIndex_step [of equals doc ?pre] by blast
  have res: "Index_getDocumentIndex equals this doc = Inr r"
    using assms f
    by (simp add: Index_getDocumentIndex_def
        walk_full [where g = "getDocumentIndex_step equals doc"] getDocumentIndex_visit_step)
  have upper: "\<forall>i < length ?pre. equals (?pre ! i) doc \<longrightarrow> int i \<le> r"
  proof (intro allI impI)
    fix i assume i: "i < length ?pre" and m: "equals (?pre ! i) doc"
    from l show "int i \<le> r"
      unfolding last_match_def
    proof (elim disjE conjE)
      assume "\<forall>x \<in> set ?pre. \<not> equals x doc"
      with i m show ?thesis by (metis nth_mem)
    next
      assume "0 \<le> r" and "\<forall>j. nat r < j \<and> j < length ?pre \<longrightarrow> \<not> equals (?pre ! j) doc"
      with i m have "\<not> nat r < i" by blast
      with \<open>0 \<le> r\<close> show ?thesis by linarith
    qed
  qed
  from res l upper show ?thesis
    unfolding last_match_def by blast
qed

theorem getDocumentIndex_last_match_witness:
  "no_null_children [Some (Document ''/a'' [] [Some (Document ''/b'' [] [])]), Some (Document ''/a'' [(''n'', JNumber 2)] [])]
   \<and> Index_getDocumentIndex Document_equals
        \<lparr>Index_children = [Some (Document ''/a'' [] [Some (Document ''/b'' [] [])]),
                            Some (Document ''/a'' [(''n'', JNumber 2)] [])],
         documentMap = [], documentPositions = [], documents = []\<rparr>
        (OtherDocument (Document ''/a'' [] []))
      = Inr 2
   \<and> Index_getDocumentIndex Document_equals
        \<lparr>Index_children = [Some (Document ''/a'' [] [Some (Document ''/b'' [] [])]),
                            Some (Document ''/a'' [(''n'', JNumber 2)] [])],
         documentMap = [], documentPositions = [], documents = []\<rparr>
        (OtherUrl ''/zzz'')
      = Inr (- 1)"
proof -
  let ?idx = "\<lparr>Index_children = [Some (Document ''/a'' [] [Some (Document ''/b'' [] [])]),
                            Some (Document ''/a'' [(''n'', JNumber 2)] [])],
         documentMap = [], documentPositions = [], documents = []\<rparr>"
  have h: "no_null_children (Index_children ?idx)" by simp
  have e: "Index_getDocumentIndex Document_equals ?idx (OtherDocument (Document ''/a'' [] [])) = Inr 2"
    by (simp add: Index_getDocumentIndex_def getDocumentIndex_visit_def)
  have f: "Index_getDocumentIndex Document_equals ?idx (OtherUrl ''/zzz'') = Inr (- 1)"
    by (simp add: Index_getDocumentIndex_def getDocumentIndex_visit_def)
  from getDocumentIndex_last_match [OF h, of Document_equals "OtherDocument (Document ''/a'' [] [])"]
  obtain r where "Index_getDocumentIndex Document_equals ?idx (OtherDocument (Document ''/a'' [] [])) = Inr r"
    by blast
  with e f h show ?thesis by simp
qed

section \<open>Properties of Index.update\<close>

lemma visit_never_false_on:
  assumes "\<forall>d \<in> set ds. \<forall>s. fn s (Some d) = Inr (JUndefined, g s d)"
  shows "visit_until_false fn ds s = Inr (True, foldl g s ds)"
  using assms by (induction ds arbitrary: s) simp_all

lemma obj_get_set: "obj_get (obj_set m k v) k' = (if k' = k then Some v else obj_get m k')"
  by (simp add: obj_get_def obj_set_def update_conv')

lemma cache_push_plain:
  assumes "key \<notin> set (Object_prototype_names extra)"
  shows "cache_push extra cache key v =
           Inr (obj_set cache key ((case obj_get cache key of Some xs \<Rightarrow> xs | None \<Rightarrow> []) @ [v]))"
  using assms by (simp add: cache_push_def obj_lookup_def split: option.splits)

lemma cache_push_inherited:
  assumes "key \<in> set (Object_prototype_names extra)" "obj_get cache key = None"
  shows "cache_push extra cache key v = Inl TypeError"
  using assms by (simp add: cache_push_def obj_lookup_def)

lemma update_step_apply:
  "update_step (this, n) d =
     (this\<lparr>documentMap :=
              obj_set (documentMap this) (url d)
                ((case obj_get (documentMap this) (url d) of Some xs \<Rightarrow> xs | None \<Rightarrow> []) @ [d]),
            documents := documents this @ [d],
            documentPositions :=
              obj_set (documentPositions this) (url d)
                ((case obj_get (documentPositions this) (url d) of Some xs \<Rightarrow> xs | None \<Rightarrow> []) @ [n])\<rparr>,
      Suc n)"
  by (simp add: update_step_def)

lemma update_visit_step:
  assumes "url d \<notin> set (Object_prototype_names extra)"
  shows "update_visit extra st (Some d) = Inr (JUndefined, update_step st d)"
proof -
  obtain this n where st: "st = (this, n)" by (cases st)
  show ?thesis
    unfolding st update_step_apply
    by (simp add: update_visit_def cache_push_plain [OF assms] Let_def)
qed

lemma update_visit_raises:
  assumes "url d \<in> set (Object_prototype_names extra)" "obj_get (documentMap this) (url d) = None"
  shows "update_visit extra (this, n) (Some d) = Inl TypeError"
  by (simp add: update_visit_def cache_push_inherited [OF assms])

lemma groups_snoc:
  "groups (ds @ [d]) u =
     (if u = url d then Some ((case groups ds (url d) of Some xs \<Rightarrow> xs | None \<Rightarrow> []) @ [d])
      else groups ds u)"
  by (auto simp: groups_def filter_empty_conv image_iff)

lemma places_filter_snoc:
  "filter (\<lambda>i. url ((ds @ [d]) ! i) = u) [0..<length ds] = filter (\<lambda>i. url (ds ! i) = u) [0..<length ds]"
  by (rule filter_cong) (auto simp: nth_append)

lemma places_snoc:
  "places (ds @ [d]) u =
     (if u = url d then Some ((case places ds (url d) of Some xs \<Rightarrow> xs | None \<Rightarrow> []) @ [length ds])
      else places ds u)"
proof -
  have split: "filter (\<lambda>i. url ((ds @ [d]) ! i) = u) [0..<length (ds @ [d])] =
      filter (\<lambda>i. url (ds ! i) = u) [0..<length ds] @ (if url d = u then [length ds] else [])"
    by (simp add: places_filter_snoc)
  have none: "url d \<notin> url ` set ds \<Longrightarrow> filter (\<lambda>i. url (ds ! i) = url d) [0..<length ds] = []"
  proof -
    assume a: "url d \<notin> url ` set ds"
    have "\<forall>i \<in> set [0..<length ds]. url (ds ! i) \<noteq> url d"
    proof
      fix i assume "i \<in> set [0..<length ds]"
      then have "ds ! i \<in> set ds" by simp
      with a show "url (ds ! i) \<noteq> url d" by (metis imageI)
    qed
    then show ?thesis by (simp add: filter_empty_conv)
  qed
  show ?thesis
    unfolding places_def split using none
    by (auto simp: image_iff)
qed

lemma foldl_update_step:
  assumes "documents this0 = []" "documentMap this0 = []" "documentPositions this0 = []"
  shows "\<exists>this'. foldl update_step (this0, 0) ds = (this', length ds)
           \<and> Index_children this' = Index_children this0
           \<and> documents this' = ds
           \<and> (\<forall>u. obj_get (documentMap this') u = groups ds u)
           \<and> (\<forall>u. obj_get (documentPositions this') u = places ds u)"
proof (induction ds rule: rev_induct)
  case Nil
  show ?case using assms by (simp add: obj_get_def groups_def places_def)
next
  case (snoc d ds)
  then obtain this1 where f: "foldl update_step (this0, 0) ds = (this1, length ds)"
    and c: "Index_children this1 = Index_children this0"
    and ds: "documents this1 = ds"
    and g: "\<forall>u. obj_get (documentMap this1) u = groups ds u"
    and p: "\<forall>u. obj_get (documentPositions this1) u = places ds u"
    by blast
  show ?case
    using f c ds g p
    by (simp add: update_step_apply obj_get_set groups_snoc places_snoc)
qed

lemma places_nth:
  assumes "i < length ds"
  shows "\<exists>ps. places ds (url (ds ! i)) = Some ps \<and> i \<in> set ps"
  using assms by (auto simp: places_def)

lemma groups_nth:
  assumes "i < length ds"
  shows "\<exists>xs. groups ds (url (ds ! i)) = Some xs \<and> ds ! i \<in> set xs"
  using assms by (auto simp: groups_def)

text \<open>The walk of \<open>update\<close> over documents of which none has a url that
  \<open>Object.prototype\<close> defines: it visits them all.\<close>

lemma update_visits_all:
  assumes "\<forall>d \<in> set ds. url d \<notin> set (Object_prototype_names extra)"
  shows "visit_until_false (update_visit extra) ds st = Inr (True, foldl update_step st ds)"
  using assms by (intro visit_never_false_on) (simp add: update_visit_step)

text \<open>The walk of \<open>update\<close> raises at the first document whose url \<open>Object.prototype\<close> defines.\<close>

lemma update_walk_raises:
  assumes "documents this0 = []" "documentMap this0 = []" "documentPositions this0 = []"
    and "\<exists>d \<in> set ds. url d \<in> set (Object_prototype_names extra)"
  shows "visit_until_false (update_visit extra) ds (this0, 0) = Inl TypeError"
proof -
  from assms(4) obtain xs d ys where split: "ds = xs @ d # ys"
    and d: "url d \<in> set (Object_prototype_names extra)"
    and xs: "\<forall>x \<in> set xs. url x \<notin> set (Object_prototype_names extra)"
    using split_list_first_prop [of ds "\<lambda>d. url d \<in> set (Object_prototype_names extra)"]
    by blast
  from foldl_update_step [OF assms(1-3), of xs] obtain this1 where
    f: "foldl update_step (this0, 0) xs = (this1, length xs)"
    and g: "\<forall>u. obj_get (documentMap this1) u = groups xs u" by blast
  from d xs have "url d \<notin> url ` set xs" by auto
  with g have "obj_get (documentMap this1) (url d) = None" by (simp add: groups_def)
  from update_visit_raises [OF d this]
  have r: "update_visit extra (this1, length xs) (Some d) = Inl TypeError" .
  have "visit_until_false (update_visit extra) xs (this0, 0) = Inr (True, (this1, length xs))"
    using update_visits_all [OF xs] f by simp
  with r show ?thesis
    unfolding split by (simp add: visit_until_false_append)
qed

text \<open>
  Claim C2. After \<open>update\<close> returns, \<open>documents\<close> is the depth-first pre-order sequence of
  the whole tree; \<open>documentMap[u]\<close> is the sequence of the documents with url \<open>u\<close> and
  \<open>documentPositions[u]\<close> the sequence of their positions, both in traversal order, with
  no entry for a url that no document has; so for the document \<open>d\<close> at position \<open>i\<close>,
  \<open>documentPositions[d.url]\<close> contains \<open>i\<close> and \<open>documentMap[d.url]\<close> contains \<open>d\<close>. The
  caches are replaced, not patched: whatever they held before, the result is the same.
  And \<open>update\<close> does return when no document of the tree has a url that names a property
  of \<open>Object.prototype\<close>; when one has, \<open>update\<close> raises a TypeError.
\<close>

theorem update_rebuilds_caches:
  assumes "no_null_children (Index_children this)"
  shows "(\<forall>this'. Index_update extra this = Inr this' \<longrightarrow>
            Index_children this' = Index_children this
            \<and> documents this' = preorder (Index_children this)
            \<and> (\<forall>u. obj_get (documentMap this') u =
                   (if u \<in> url ` set (documents this')
                    then Some (filter (\<lambda>d. url d = u) (documents this')) else None))
            \<and> (\<forall>u. obj_get (documentPositions this') u =
                   (if u \<in> url ` set (documents this')
                    then Some (filter (\<lambda>i. url (documents this' ! i) = u)
                                 [0..<length (documents this')])
                    else None))
            \<and> (\<forall>i < length (documents this').
                   \<exists>ps ds. obj_get (documentPositions this') (url (documents this' ! i)) = Some ps
                          \<and> i \<in> set ps
                          \<and> obj_get (documentMap this') (url (documents this' ! i)) = Some ds
                          \<and> documents this' ! i \<in> set ds)
            \<and> (\<forall>ds m p. Index_update extra
                           (this\<lparr>documents := ds, documentMap := m, documentPositions := p\<rparr>)
                   = Inr this'))
         \<and> ((\<forall>d \<in> set (preorder (Index_children this)). url d \<notin> set (Object_prototype_names extra))
              \<longrightarrow> (\<exists>this'. Index_update extra this = Inr this'))
         \<and> ((\<exists>d \<in> set (preorder (Index_children this)). url d \<in> set (Object_prototype_names extra))
              \<longrightarrow> Index_update extra this = Inl TypeError)"
proof -
  let ?fresh = "this\<lparr>documents := [], documentMap := [], documentPositions := []\<rparr>"
  let ?pre = "preorder (Index_children this)"
  have walk: "Index_walk (Index_children this) (update_visit extra) (?fresh, 0)
                = visit_until_false (update_visit extra) ?pre (?fresh, 0)"
    using assms by (rule walk_flat)
  have raises: "Index_update extra this = Inl TypeError"
    if "\<exists>d \<in> set ?pre. url d \<in> set (Object_prototype_names extra)"
  proof -
    have "visit_until_false (update_visit extra) ?pre (?fresh, 0) = Inl TypeError"
      using that by (intro update_walk_raises) simp_all
    with walk show ?thesis by (simp add: Index_update_def)
  qed
  have returns: "\<exists>this'. Index_update extra this = Inr this'
            \<and> Index_children this' = Index_children this
            \<and> documents this' = ?pre
            \<and> (\<forall>u. obj_get (documentMap this') u = groups ?pre u)
            \<and> (\<forall>u. obj_get (documentPositions this') u = places ?pre u)
            \<and> (\<forall>ds m p. Index_update extra
                           (this\<lparr>documents := ds, documentMap := m, documentPositions := p\<rparr>)
                   = Inr this')"
    if plain: "\<forall>d \<in> set ?pre. url d \<notin> set (Object_prototype_names extra)"
  proof -
    obtain this' where f: "foldl update_step (?fresh, 0) ?pre = (this', length ?pre)"
      and c: "Index_children this' = Index_children ?fresh"
      and ds: "documents this' = ?pre"
      and g: "\<forall>u. obj_get (documentMap this') u = groups ?pre u"
      and p: "\<forall>u. obj_get (documentPositions this') u = places ?pre u"
      using foldl_update_step [of ?fresh ?pre] by auto
    have w: "Index_walk (Index_children this) (update_visit extra) (?fresh, 0)
               = Inr (True, (this', length ?pre))"
      using walk update_visits_all [OF plain, of "(?fresh, 0)"] f by simp
    have u: "Index_update extra this = Inr this'"
      using w by (simp add: Index_update_def)
    have r: "\<forall>ds m p. Index_update extra
                         (this\<lparr>documents := ds, documentMap := m, documentPositions := p\<rparr>)
                 = Inr this'"
      using w by (simp add: Index_update_def)
    from u c ds g p r show ?thesis by (intro exI [of _ this']) simp
  qed
  have after: "Index_children this' = Index_children this
            \<and> documents this' = preorder (Index_children this)
            \<and> (\<forall>u. obj_get (documentMap this') u =
                   (if u \<in> url ` set (documents this')
                    then Some (filter (\<lambda>d. url d = u) (documents this')) else None))
            \<and> (\<forall>u. obj_get (documentPositions this') u =
                   (if u \<in> url ` set (documents this')
                    then Some (filter (\<lambda>i. url (documents this' ! i) = u)
                                 [0..<length (documents this')])
                    else None))
            \<and> (\<forall>i < length (documents this').
                   \<exists>ps ds. obj_get (documentPositions this') (url (documents this' ! i)) = Some ps
                          \<and> i \<in> set ps
                          \<and> obj_get (documentMap this') (url (documents this' ! i)) = Some ds
                          \<and> documents this' ! i \<in> set ds)
            \<and> (\<forall>ds m p. Index_update extra
                           (this\<lparr>documents := ds, documentMap := m, documentPositions := p\<rparr>)
                   = Inr this')"
    if ret: "Index_update extra this = Inr this'" for this'
  proof -
    have plain: "\<forall>d \<in> set ?pre. url d \<notin> set (Object_prototype_names extra)"
    proof (rule ccontr)
      assume "\<not> ?thesis"
      then have "Index_update extra this = Inl TypeError" using raises by blast
      with ret show False by simp
    qed
    from returns [OF plain] ret have c: "Index_children this' = Index_children this"
      and ds: "documents this' = ?pre"
      and g: "\<forall>u. obj_get (documentMap this') u = groups ?pre u"
      and p: "\<forall>u. obj_get (documentPositions this') u = places ?pre u"
      and r: "\<forall>ds m p. Index_update extra
                         (this\<lparr>documents := ds, documentMap := m, documentPositions := p\<rparr>)
                 = Inr this'"
      by auto
    have n: "\<forall>i < length (documents this').
               \<exists>ps xs. obj_get (documentPositions this') (url (documents this' ! i)) = Some ps
                      \<and> i \<in> set ps
                      \<and> obj_get (documentMap this') (url (documents this' ! i)) = Some xs
                      \<and> documents this' ! i \<in> set xs"
      using ds g p places_nth [of _ ?pre] groups_nth [of _ ?pre] by metis
    from c ds g p n r show ?thesis
      by (simp add: groups_def places_def)
  qed
  from after returns raises show ?thesis by blast
qed

theorem update_rebuilds_caches_witness:
  "no_null_children [Some (Document ''/a'' [] [Some (Document ''/b'' [] [])]), Some (Document ''/a'' [(''n'', JNumber 2)] [])]
   \<and> Index_update browser_names
        \<lparr>Index_children = [Some (Document ''/a'' [] [Some (Document ''/b'' [] [])]),
                            Some (Document ''/a'' [(''n'', JNumber 2)] [])],
         documentMap = [(''/old'', [Document ''/old'' [] []])],
         documentPositions = [(''/old'', [0])],
         documents = [Document ''/old'' [] []]\<rparr>
      = Inr \<lparr>Index_children = [Some (Document ''/a'' [] [Some (Document ''/b'' [] [])]),
                                Some (Document ''/a'' [(''n'', JNumber 2)] [])],
             documentMap = [(''/a'', [Document ''/a'' [] [Some (Document ''/b'' [] [])],
                                      Document ''/a'' [(''n'', JNumber 2)] []]),
                            (''/b'', [Document ''/b'' [] []])],
             documentPositions = [(''/a'', [0, 2]), (''/b'', [1])],
             documents = [Document ''/a'' [] [Some (Document ''/b'' [] [])],
                          Document ''/b'' [] [],
                          Document ''/a'' [(''n'', JNumber 2)] []]\<rparr>
   \<and> Index_update browser_names
        \<lparr>Index_children = [Some (Document ''/a'' [] []), Some (Document ''toString'' [] [])],
         documentMap = [], documentPositions = [], documents = []\<rparr>
      = Inl TypeError"
proof -
  let ?idx = "\<lparr>Index_children = [Some (Document ''/a'' [] [Some (Document ''/b'' [] [])]),
                            Some (Document ''/a'' [(''n'', JNumber 2)] [])],
         documentMap = [(''/old'', [Document ''/old'' [] []])],
         documentPositions = [(''/old'', [0])],
         documents = [Document ''/old'' [] []]\<rparr>"
  let ?bad = "\<lparr>Index_children = [Some (Document ''/a'' [] []), Some (Document ''toString'' [] [])],
         documentMap = [], documentPositions = [], documents = []\<rparr>"
  have h: "no_null_children (Index_children ?idx)" by simp
  have hb: "no_null_children (Index_children ?bad)" by simp
  have e: "Index_update browser_names ?idx
      = Inr \<lparr>Index_children = [Some (Document ''/a'' [] [Some (Document ''/b'' [] [])]),
                                Some (Document ''/a'' [(''n'', JNumber 2)] [])],
             documentMap = [(''/a'', [Document ''/a'' [] [Some (Document ''/b'' [] [])],
                                      Document ''/a'' [(''n'', JNumber 2)] []]),
                            (''/b'', [Document ''/b'' [] []])],
             documentPositions = [(''/a'', [0, 2]), (''/b'', [1])],
             documents = [Document ''/a'' [] [Some (Document ''/b'' [] [])],
                          Document ''/b'' [] [],
                          Document ''/a'' [(''n'', JNumber 2)] []]\<rparr>"
    by (simp add: Index_update_def update_visit_def cache_push_def obj_lookup_def obj_get_def
        obj_set_def Object_prototype_names_def browser_names_def)
  from update_rebuilds_caches [OF h, of browser_names] e
  have "documents \<lparr>Index_children = [Some (Document ''/a'' [] [Some (Document ''/b'' [] [])]),
                                Some (Document ''/a'' [(''n'', JNumber 2)] [])],
             documentMap = [(''/a'', [Document ''/a'' [] [Some (Document ''/b'' [] [])],
                                      Document ''/a'' [(''n'', JNumber 2)] []]),
                            (''/b'', [Document ''/b'' [] []])],
             documentPositions = [(''/a'', [0, 2]), (''/b'', [1])],
             documents = [Document ''/a'' [] [Some (Document ''/b'' [] [])],
                          Document ''/b'' [] [],
                          Document ''/a'' [(''n'', JNumber 2)] []]\<rparr> = preorder (Index_children ?idx)"
    by blast
  moreover from update_rebuilds_caches [OF hb, of browser_names]
  have "Index_update browser_names ?bad = Inl TypeError"
    by (simp add: Object_prototype_names_def)
  ultimately show ?thesis using h e by simp
qed

section \<open>Properties of Index.parseEntry and Index.parse\<close>

declare Index_parseEntry.simps [simp del]
declare readable_entry.simps [simp del]

lemma truthy_url_object:
  assumes "js_prop entry key = Inr u" "truthy u"
  shows "\<exists>kvs. entry = JObject kvs \<and> obj_get kvs key = Some u"
  using assms by (cases entry) (auto split: option.splits)

lemma js_prop_defined:
  "js_prop entry key = Inr u \<Longrightarrow> \<exists>v. js_prop entry key' = Inr v"
  by (cases entry) auto

lemma copy_fields_object: "\<exists>m'. copy_fields extra (JObject kvs) keys m = Inr m'"
  by (induction keys arbitrary: m) auto

lemma appendChild_fst:
  "fst (TreeNode_appendChild kids node) = kids @ (case node of None \<Rightarrow> [] | Some d \<Rightarrow> [Some d])"
  by (simp add: TreeNode_appendChild_def split: option.splits)

lemma parseEntry_total_both:
  fixes lg lg0 :: log and kids0 :: "document option list"
  shows "(readable_entry entry \<longrightarrow>
      (\<exists>r ws. \<forall>l. Index_parseEntry env entry l = Inr (r, l @ ws)))"
  and "(list_all readable_entry cs \<longrightarrow>
      (\<exists>ks ws. \<forall>kids l. parseEntry_children env cs kids l = Inr (kids @ ks, l @ ws)))"
proof (induction env entry lg and env cs kids0 lg0 rule: Index_parseEntry_parseEntry_children.induct)
  case (1 env entry lg)
  show ?case
  proof
    assume r: "readable_entry entry"
    then obtain u where u: "js_prop entry ''url'' = Inr u"
      by (auto simp: readable_entry.simps [of entry] split: sum.splits)
    then obtain chs where chs: "js_prop entry ''children'' = Inr chs"
      using js_prop_defined by blast
    show "\<exists>r ws. \<forall>l. Index_parseEntry env entry l = Inr (r, l @ ws)"
    proof (cases "truthy u")
      case False
      with u chs have "\<forall>l. Index_parseEntry env entry l =
          Inr (None, l @ [''Ignored document index entry without URL''])"
        by (simp add: Index_parseEntry.simps [of env entry] warn_def)
      then show ?thesis by blast
    next
      case True
      with u obtain kvs where kvs: "entry = JObject kvs"
        using truthy_url_object by blast
      then have keys: "Object_keys (keys_es5 env) entry = Inr (map fst kvs)" by simp
      obtain m where m: "copy_fields (prototype_names env) entry (map fst kvs) [] = Inr m"
        using copy_fields_object kvs by blast
      show ?thesis
      proof (cases "\<exists>cs. chs = JArray cs")
        case False
        with u chs True keys m
        have "\<forall>l. Index_parseEntry env entry l =
            Inr (Some (Document (stripHash env (absoluteURL env u)) m []), l @ [])"
          by (cases chs) (simp_all add: Index_parseEntry.simps [of env entry])
        then show ?thesis by blast
      next
        case True
        then obtain cs where cs: "chs = JArray cs" by blast
        from r u chs \<open>truthy u\<close> cs have "list_all readable_entry cs"
          by (simp add: readable_entry.simps [of entry])
        with "1.IH" [OF u chs _ keys m cs] \<open>truthy u\<close>
        obtain ks ws where "\<forall>kids l. parseEntry_children env cs kids l = Inr (kids @ ks, l @ ws)"
          by auto
        with u chs \<open>truthy u\<close> keys m cs
        have "\<forall>l. Index_parseEntry env entry l =
            Inr (Some (Document (stripHash env (absoluteURL env u)) m ks), l @ ws)"
          by (simp add: Index_parseEntry.simps [of env entry])
        then show ?thesis by blast
      qed
    qed
  qed
next
  case (2 env kids lg)
  show ?case
  proof
    have "\<forall>kids l. parseEntry_children env [] kids l = Inr (kids @ [], l @ [])" by simp
    then show "\<exists>ks ws. \<forall>kids l. parseEntry_children env [] kids l = Inr (kids @ ks, l @ ws)"
      by blast
  qed
next
  case (3 env child rest kids lg)
  show ?case
  proof
    assume "list_all readable_entry (child # rest)"
    then have rc: "readable_entry child" and rr: "list_all readable_entry rest" by simp_all
    from "3.IH"(1) rc obtain r1 ws1 where
      one: "\<forall>l. Index_parseEntry env child l = Inr (r1, l @ ws1)" by blast
    then have "Index_parseEntry env child lg = Inr (r1, lg @ ws1)" by blast
    from "3.IH"(2) [OF this refl] rr obtain ks2 ws2 where
      two: "\<forall>kids l. parseEntry_children env rest kids l = Inr (kids @ ks2, l @ ws2)" by blast
    have "\<forall>kids l. parseEntry_children env (child # rest) kids l =
        Inr (kids @ ((case r1 of None \<Rightarrow> [] | Some d \<Rightarrow> [Some d]) @ ks2), l @ (ws1 @ ws2))"
      using one two by (simp add: appendChild_fst)
    then show "\<exists>ks ws. \<forall>kids l. parseEntry_children env (child # rest) kids l = Inr (kids @ ks, l @ ws)"
      by blast
  qed
qed

lemma no_null_children_append:
  "no_null_children (xs @ ys) \<longleftrightarrow> no_null_children xs \<and> no_null_children ys"
  by (induction xs rule: no_null_children.induct) auto

lemma parseEntry_no_null_both:
  "(\<forall>d lg'. Index_parseEntry env entry lg = Inr (Some d, lg') \<longrightarrow> no_null_children (children d))"
  "(\<forall>kids' lg'. parseEntry_children env cs kids lg0 = Inr (kids', lg') \<longrightarrow> no_null_children kids
       \<longrightarrow> no_null_children kids')"
proof (induction env entry lg and env cs kids lg0 rule: Index_parseEntry_parseEntry_children.induct)
  case (1 env entry lg)
  show ?case
  proof (intro allI impI)
    fix d lg'
    assume res: "Index_parseEntry env entry lg = Inr (Some d, lg')"
    then obtain u chs keys m where u: "js_prop entry ''url'' = Inr u"
      and chs: "js_prop entry ''children'' = Inr chs" and t: "truthy u"
      and keys: "Object_keys (keys_es5 env) entry = Inr keys"
      and m: "copy_fields (prototype_names env) entry keys [] = Inr m"
      by (auto simp: Index_parseEntry.simps [of env entry] split: sum.splits if_splits)
    show "no_null_children (children d)"
    proof (cases "\<exists>cs. chs = JArray cs")
      case False
      with res u chs t keys m have "children d = []"
        by (cases chs) (auto simp: Index_parseEntry.simps [of env entry])
      then show ?thesis by simp
    next
      case True
      then obtain cs where cs: "chs = JArray cs" by blast
      with res u chs t keys m obtain kids where
        k: "parseEntry_children env cs [] lg = Inr (kids, lg')" and "children d = kids"
        by (auto simp: Index_parseEntry.simps [of env entry] split: sum.splits)
      with "1.IH" [OF u chs _ keys m cs] t show ?thesis by auto
    qed
  qed
next
  case (2 env kids lg)
  show ?case by simp
next
  case (3 env child rest kids lg)
  show ?case
  proof (intro allI impI)
    fix kids' lg'
    assume res: "parseEntry_children env (child # rest) kids lg = Inr (kids', lg')"
      and nn: "no_null_children kids"
    from res obtain node lg1 where
      one: "Index_parseEntry env child lg = Inr (node, lg1)"
      and two: "parseEntry_children env rest (fst (TreeNode_appendChild kids node)) lg1 = Inr (kids', lg')"
      by (auto split: sum.splits)
    have "no_null_children (fst (TreeNode_appendChild kids node))"
    proof (cases node)
      case None
      with nn show ?thesis by (simp add: appendChild_fst)
    next
      case (Some d)
      with one "3.IH"(1) have "no_null_children (children d)" by blast
      with nn Some show ?thesis by (simp add: appendChild_fst no_null_children_append)
    qed
    with "3.IH"(2) [OF one refl] two show "no_null_children kids'" by blast
  qed
qed

lemma parseEntry_total:
  "readable_entry entry \<Longrightarrow> \<exists>r ws. \<forall>l. Index_parseEntry env entry l = Inr (r, l @ ws)"
  using parseEntry_total_both(1) [of entry env] by blast

lemma case_not_array:
  "(\<forall>cs. chs \<noteq> JArray cs) \<Longrightarrow> (case chs of JArray cs \<Rightarrow> f cs | _ \<Rightarrow> g) = g"
  by (cases chs) simp_all

lemma parseEntry_inversion:
  assumes "Index_parseEntry env entry l = Inr (r, l')"
  shows "\<exists>u chs. js_prop entry ''url'' = Inr u \<and> js_prop entry ''children'' = Inr chs
           \<and> (if \<not> truthy u
               then r = None \<and> l' = warn ''Ignored document index entry without URL'' l
               else \<exists>keys m kids.
                      Object_keys (keys_es5 env) entry = Inr keys
                      \<and> copy_fields (prototype_names env) entry keys [] = Inr m
                      \<and> r = Some (Document (stripHash env (absoluteURL env u)) m kids)
                      \<and> ((\<exists>cs. chs = JArray cs \<and> parseEntry_children env cs [] l = Inr (kids, l'))
                          \<or> ((\<forall>cs. chs \<noteq> JArray cs) \<and> kids = [] \<and> l' = l)))"
proof -
  from assms obtain u where u: "js_prop entry ''url'' = Inr u"
    by (cases "js_prop entry ''url''") (simp_all add: Index_parseEntry.simps [of env entry])
  from assms u obtain chs where chs: "js_prop entry ''children'' = Inr chs"
    by (cases "js_prop entry ''children''") (simp_all add: Index_parseEntry.simps [of env entry])
  show ?thesis
  proof (cases "truthy u")
    case False
    with assms u chs show ?thesis
      by (simp add: Index_parseEntry.simps [of env entry])
  next
    case True
    from assms u chs True obtain keys where keys: "Object_keys (keys_es5 env) entry = Inr keys"
      by (cases "Object_keys (keys_es5 env) entry")
         (simp_all add: Index_parseEntry.simps [of env entry])
    from assms u chs True keys obtain m where m: "copy_fields (prototype_names env) entry keys [] = Inr m"
      by (cases "copy_fields (prototype_names env) entry keys []")
         (simp_all add: Index_parseEntry.simps [of env entry])
    show ?thesis
    proof (cases "\<exists>cs. chs = JArray cs")
      case False
      with assms u chs True keys m
      have "r = Some (Document (stripHash env (absoluteURL env u)) m []) \<and> l' = l"
        by (simp add: Index_parseEntry.simps [of env entry] case_not_array)
      with u chs True keys m False show ?thesis by simp
    next
      case yes: True
      then obtain cs where cs: "chs = JArray cs" by blast
      from assms u chs True keys m cs obtain kids where
        "parseEntry_children env cs [] l = Inr (kids, l')"
        "r = Some (Document (stripHash env (absoluteURL env u)) m kids)"
        by (cases "parseEntry_children env cs [] l")
           (auto simp: Index_parseEntry.simps [of env entry])
      with u chs True keys m cs show ?thesis by simp
    qed
  qed
qed

lemma parseEntry_null_iff:
  assumes "Index_parseEntry env entry l = Inr (r, l')"
  shows "r = None \<longleftrightarrow> \<not> has_url entry"
  using parseEntry_inversion [OF assms]
  by (auto simp: has_url_def split: if_splits)

lemma parseEntry_no_url:
  assumes "readable_entry entry" "\<not> has_url entry"
  shows "Index_parseEntry env entry l = Inr (None, warn ''Ignored document index entry without URL'' l)"
proof -
  from assms(1) obtain u where u: "js_prop entry ''url'' = Inr u"
    by (auto simp: readable_entry.simps [of entry] split: sum.splits)
  then obtain chs where chs: "js_prop entry ''children'' = Inr chs"
    using js_prop_defined by blast
  from u assms(2) have "\<not> truthy u" by (simp add: has_url_def)
  with u chs show ?thesis by (simp add: Index_parseEntry.simps [of env entry])
qed

lemma parse_map_total:
  assumes "list_all readable_entry entries"
  shows "\<exists>result ws. (\<forall>l. parse_map env entries l = Inr (result, l @ ws))
           \<and> list_all2 (parses_to env) entries result"
  using assms
proof (induction entries)
  case Nil
  show ?case
    by (intro exI [of _ "[]"] conjI) simp_all
next
  case (Cons entry rest)
  then have re: "readable_entry entry" and rr: "list_all readable_entry rest" by simp_all
  from parseEntry_total [OF re, of env] obtain r ws1 where
    one: "\<forall>l. Index_parseEntry env entry l = Inr (r, l @ ws1)" by blast
  from Cons.IH [OF rr] obtain rs ws2 where
    two: "\<forall>l. parse_map env rest l = Inr (rs, l @ ws2)"
    and all: "list_all2 (parses_to env) rest rs" by blast
  have "Index_parseEntry env entry [] = Inr (r, [] @ ws1)"
    using one by blast
  then have "r = None \<longleftrightarrow> \<not> has_url entry"
    by (rule parseEntry_null_iff)
  moreover have "\<forall>l. \<exists>l'. Index_parseEntry env entry l = Inr (r, l')"
    using one by simp
  ultimately have p: "parses_to env entry r"
    unfolding parses_to_def by simp
  have step: "\<forall>l. parse_map env (entry # rest) l = Inr (r # rs, l @ (ws1 @ ws2))"
    using one two by simp
  have "list_all2 (parses_to env) (entry # rest) (r # rs)"
    using p all by simp
  with step show ?case
    by (intro exI [of _ "r # rs"] exI [of _ "ws1 @ ws2"] conjI)
qed

lemma append_map_non_null:
  "None \<notin> set rs \<Longrightarrow> append_map this rs = (rs, this\<lparr>Index_children := Index_children this @ rs\<rparr>)"
proof (induction rs arbitrary: this)
  case Nil
  show ?case by simp
next
  case (Cons r rs)
  then obtain d where d: "r = Some d" by (cases r) auto
  from Cons have "append_map (this\<lparr>Index_children := Index_children this @ [r]\<rparr>) rs =
      (rs, this\<lparr>Index_children := Index_children this @ [r]\<rparr>
              \<lparr>Index_children := Index_children (this\<lparr>Index_children := Index_children this @ [r]\<rparr>) @ rs\<rparr>)"
    by simp
  with d show ?case
    by (simp add: TreeNode_appendChild_def)
qed

lemma count_non_null:
  assumes "list_all2 (parses_to env) entries result"
  shows "length (filter (\<lambda>r. r \<noteq> None) result) = length (filter has_url entries)"
  using assms by (induction rule: list_all2_induct) (auto simp: parses_to_def)

text \<open>
  Claim C4. For an array of entries (given as such, or as a string that decodes to it),
  \<open>parse\<close> runs \<open>parseEntry\<close> on every entry, in order; \<open>parseEntry\<close> returns null, after a
  warning, exactly on the entries without url; the results that are not null are
  appended, in their order, to the children of the Index, and they are what \<open>parse\<close>
  returns: one top-level Document for each entry with a url, the others skipped.
\<close>

theorem parse_attaches_entries_with_url:
  assumes "index = JArray entries
           \<or> (\<exists>s. index = JString s \<and> s \<noteq> [] \<and> json_parse env s = Inr (JArray entries))"
    and "list_all readable_entry entries"
  shows "\<exists>result lg'.
           list_all2 (parses_to env) entries result
           \<and> Index_parse env this index lg =
               Inr (filter (\<lambda>r. r \<noteq> None) result,
                    this\<lparr>Index_children := Index_children this @ filter (\<lambda>r. r \<noteq> None) result\<rparr>,
                    lg')
           \<and> length (filter (\<lambda>r. r \<noteq> None) result) = length (filter has_url entries)
           \<and> (\<forall>entry \<in> set entries. \<forall>l. \<not> has_url entry \<longrightarrow>
                 Index_parseEntry env entry l =
                   Inr (None, warn ''Ignored document index entry without URL'' l))"
proof -
  from parse_map_total [OF assms(2)] obtain result ws where
    pm: "\<forall>l. parse_map env entries l = Inr (result, l @ ws)"
    and all: "list_all2 (parses_to env) entries result" by blast
  let ?kept = "filter (\<lambda>r. r \<noteq> None) result"
  have am: "append_map this ?kept = (?kept, this\<lparr>Index_children := Index_children this @ ?kept\<rparr>)"
    by (rule append_map_non_null) simp
  have "Index_parse env this index lg =
      Inr (?kept, this\<lparr>Index_children := Index_children this @ ?kept\<rparr>, lg @ ws)"
    using assms(1) pm am by (auto simp: Index_parse_def decode_index_def)
  moreover have "\<forall>entry \<in> set entries. \<forall>l. \<not> has_url entry \<longrightarrow>
      Index_parseEntry env entry l = Inr (None, warn ''Ignored document index entry without URL'' l)"
    using assms(2) parseEntry_no_url by (auto simp: list_all_iff)
  ultimately show ?thesis
    using all count_non_null [OF all] by blast
qed

theorem parse_attaches_entries_with_url_witness:
  "list_all readable_entry
     [JObject [(''url'', JString ''/a#x''), (''title'', JString ''A''),
               (''children'', JArray [JObject [(''url'', JString ''/b'')],
                                      JObject [(''title'', JString ''no url'')]])],
      JObject [(''name'', JNull)],
      JObject [(''url'', JString ''/c'')]]
   \<and> Index_parse example_env Index_new
        (JArray
          [JObject [(''url'', JString ''/a#x''), (''title'', JString ''A''),
                    (''children'', JArray [JObject [(''url'', JString ''/b'')],
                                           JObject [(''title'', JString ''no url'')]])],
           JObject [(''name'', JNull)],
           JObject [(''url'', JString ''/c'')]])
        []
      = Inr ([Some (Document ''http://h/a''
                      [(''url'', JString ''/a#x''), (''title'', JString ''A''),
                       (''children'', JArray [JObject [(''url'', JString ''/b'')],
                                              JObject [(''title'', JString ''no url'')]])]
                      [Some (Document ''http://h/b'' [(''url'', JString ''/b'')] [])]),
              Some (Document ''http://h/c'' [(''url'', JString ''/c'')] [])],
             \<lparr>Index_children =
                [Some (Document ''http://h/a''
                      [(''url'', JString ''/a#x''), (''title'', JString ''A''),
                       (''children'', JArray [JObject [(''url'', JString ''/b'')],
                                              JObject [(''title'', JString ''no url'')]])]
                      [Some (Document ''http://h/b'' [(''url'', JString ''/b'')] [])]),
                 Some (Document ''http://h/c'' [(''url'', JString ''/c'')] [])],
              documentMap = [], documentPositions = [], documents = []\<rparr>,
             [''Ignored document index entry without URL'',
              ''Ignored document index entry without URL''])"
proof -
  let ?entries = "[JObject [(''url'', JString ''/a#x''), (''title'', JString ''A''),
               (''children'', JArray [JObject [(''url'', JString ''/b'')],
                                      JObject [(''title'', JString ''no url'')]])],
      JObject [(''name'', JNull)],
      JObject [(''url'', JString ''/c'')]]"
  have h: "list_all readable_entry ?entries"
    by (simp add: readable_entry.simps obj_get_def)
  have i: "JArray ?entries = JArray ?entries
           \<or> (\<exists>s. JArray ?entries = JString s \<and> s \<noteq> [] \<and> json_parse example_env s = Inr (JArray ?entries))"
    by simp
  from parse_attaches_entries_with_url [OF i h, of Index_new "[]"]
  obtain result lg' where
    "Index_parse example_env Index_new (JArray ?entries) [] =
       Inr (filter (\<lambda>r. r \<noteq> None) result,
            Index_new\<lparr>Index_children := Index_children Index_new @ filter (\<lambda>r. r \<noteq> None) result\<rparr>,
            lg')"
    and n: "length (filter (\<lambda>r. r \<noteq> None) result) = length (filter has_url ?entries)"
    by blast
  moreover have "length (filter has_url ?entries) = 2"
    by (simp add: has_url_def obj_get_def)
  moreover have "Index_parse example_env Index_new (JArray ?entries) []
      = Inr ([Some (Document ''http://h/a''
                      [(''url'', JString ''/a#x''), (''title'', JString ''A''),
                       (''children'', JArray [JObject [(''url'', JString ''/b'')],
                                              JObject [(''title'', JString ''no url'')]])]
                      [Some (Document ''http://h/b'' [(''url'', JString ''/b'')] [])]),
              Some (Document ''http://h/c'' [(''url'', JString ''/c'')] [])],
             \<lparr>Index_children =
                [Some (Document ''http://h/a''
                      [(''url'', JString ''/a#x''), (''title'', JString ''A''),
                       (''children'', JArray [JObject [(''url'', JString ''/b'')],
                                              JObject [(''title'', JString ''no url'')]])]
                      [Some (Document ''http://h/b'' [(''url'', JString ''/b'')] [])]),
                 Some (Document ''http://h/c'' [(''url'', JString ''/c'')] [])],
              documentMap = [], documentPositions = [], documents = []\<rparr>,
             [''Ignored document index entry without URL'',
              ''Ignored document index entry without URL''])"
    by (simp add: Index_parse_def decode_index_def Index_parseEntry.simps obj_get_def obj_set_def
        obj_assign_def example_env_def warn_def TreeNode_appendChild_def Index_new_def)
  ultimately show ?thesis using h by simp
qed

text \<open>
  Claim C5. \<open>parse\<close> does not raise and returns an empty array, the Index unchanged, when
  the input is falsy (nothing is logged), when it is a string that the decoder rejects
  (the failure is logged), and when the value after decoding, or the input itself when it
  is no string, is not an array (a warning is logged).
\<close>

theorem parse_returns_empty_on_bad_input:
  "(\<not> truthy index \<longrightarrow> Index_parse env this index lg = Inr ([], this, lg))
   \<and> (\<forall>s e. index = JString s \<and> s \<noteq> [] \<and> json_parse env s = Inl e \<longrightarrow>
         Index_parse env this index lg =
           Inr ([], this, warn (''Tried to parse TOC index file, but failed: '' @ e) lg))
   \<and> (\<forall>s v. index = JString s \<and> s \<noteq> [] \<and> json_parse env s = Inr v \<and> \<not> Array_isArray v \<longrightarrow>
         Index_parse env this index lg =
           Inr ([], this, warn ''Document index should be an array of objects.'' lg))
   \<and> (truthy index \<and> (\<forall>s. index \<noteq> JString s) \<and> \<not> Array_isArray index \<longrightarrow>
         Index_parse env this index lg =
           Inr ([], this, warn ''Document index should be an array of objects.'' lg))"
proof (intro conjI allI impI)
  assume "\<not> truthy index"
  then show "Index_parse env this index lg = Inr ([], this, lg)"
    by (simp add: Index_parse_def decode_index_def)
next
  fix s e
  assume "index = JString s \<and> s \<noteq> [] \<and> json_parse env s = Inl e"
  then show "Index_parse env this index lg =
      Inr ([], this, warn (''Tried to parse TOC index file, but failed: '' @ e) lg)"
    by (simp add: Index_parse_def decode_index_def)
next
  fix s v
  assume "index = JString s \<and> s \<noteq> [] \<and> json_parse env s = Inr v \<and> \<not> Array_isArray v"
  then show "Index_parse env this index lg =
      Inr ([], this, warn ''Document index should be an array of objects.'' lg)"
    by (cases v) (simp_all add: Index_parse_def decode_index_def)
next
  assume "truthy index \<and> (\<forall>s. index \<noteq> JString s) \<and> \<not> Array_isArray index"
  then show "Index_parse env this index lg =
      Inr ([], this, warn ''Document index should be an array of objects.'' lg)"
    by (cases index) (simp_all add: Index_parse_def decode_index_def)
qed

theorem parse_returns_empty_on_bad_input_witness:
  "Index_parse example_env Index_new (JNumber 0) [] = Inr ([], Index_new, [])
   \<and> Index_parse example_env Index_new (JString ''[{'') [] =
       Inr ([], Index_new, [''Tried to parse TOC index file, but failed: SyntaxError''])
   \<and> Index_parse example_env Index_new (JString ''5'') [] =
       Inr ([], Index_new, [''Document index should be an array of objects.''])
   \<and> Index_parse example_env Index_new (JObject [(''url'', JString ''/a'')]) [] =
       Inr ([], Index_new, [''Document index should be an array of objects.''])"
proof -
  have 1: "Index_parse example_env Index_new (JNumber 0) [] = Inr ([], Index_new, [])"
    using parse_returns_empty_on_bad_input [of "JNumber 0" example_env Index_new "[]"] by simp
  have 2: "Index_parse example_env Index_new (JString ''[{'') [] =
       Inr ([], Index_new, [''Tried to parse TOC index file, but failed: SyntaxError''])"
    using parse_returns_empty_on_bad_input [of "JString ''[{''" example_env Index_new "[]"]
    by (simp add: example_env_def warn_def)
  have 3: "Index_parse example_env Index_new (JString ''5'') [] =
       Inr ([], Index_new, [''Document index should be an array of objects.''])"
    using parse_returns_empty_on_bad_input [of "JString ''5''" example_env Index_new "[]"]
    by (simp add: example_env_def warn_def)
  have 4: "Index_parse example_env Index_new (JObject [(''url'', JString ''/a'')]) [] =
       Inr ([], Index_new, [''Document index should be an array of objects.''])"
    using parse_returns_empty_on_bad_input [of "JObject [(''url'', JString ''/a'')]" example_env Index_new "[]"]
    by (simp add: warn_def)
  from 1 2 3 4 show ?thesis by simp
qed

lemma update_fresh_key: "k \<notin> fst ` set al \<Longrightarrow> AList.update k v al = al @ [(k, v)]"
  by (induction al) auto

text \<open>The key that the copy loses: \<open>__proto__\<close>, where the engine has the accessor.\<close>

lemma obj_get_assign:
  "obj_get (obj_assign extra m k v) k' =
     (if k = ''__proto__'' \<and> ''__proto__'' \<in> set extra then obj_get m k'
      else if k' = k then Some v else obj_get m k')"
  by (simp add: obj_assign_def obj_get_set)

lemma copy_fields_lookup:
  assumes "set keys \<subseteq> fst ` set kvs" "copy_fields extra (JObject kvs) keys m = Inr m'"
  shows "obj_get m' key =
           (if key \<in> set keys \<and> \<not> (key = ''__proto__'' \<and> ''__proto__'' \<in> set extra)
            then obj_get kvs key else obj_get m key)"
  using assms
proof (induction keys arbitrary: m)
  case Nil
  then show ?case by simp
next
  case (Cons k keys)
  from Cons.prems(1) have "k \<in> fst ` set kvs" by simp
  then obtain v where v: "obj_get kvs k = Some v"
    unfolding obj_get_def by (metis domD dom_map_of_conv_image_fst)
  with Cons.prems(2) have step: "copy_fields extra (JObject kvs) keys (obj_assign extra m k v) = Inr m'"
    by simp
  from Cons.prems(1) have "set keys \<subseteq> fst ` set kvs" by simp
  from Cons.IH [OF this step] v show ?case
    by (auto simp: obj_get_assign)
qed

lemma copy_fields_distinct:
  assumes "distinct (map fst (pre @ rest))"
    and "''__proto__'' \<in> set extra \<longrightarrow> ''__proto__'' \<notin> fst ` set rest"
  shows "copy_fields extra (JObject (pre @ rest)) (map fst rest) pre = Inr (pre @ rest)"
  using assms
proof (induction rest arbitrary: pre)
  case Nil
  then show ?case by simp
next
  case (Cons kv rest)
  obtain k v where kv: "kv = (k, v)" by (cases kv)
  from Cons.prems kv have fresh: "k \<notin> fst ` set pre" by auto
  then have "map_of pre k = None" by (simp add: map_of_eq_None_iff)
  then have look: "obj_get (pre @ kv # rest) k = Some v"
    using kv by (simp add: obj_get_def map_add_def)
  from Cons.prems(2) kv have plain: "\<not> (k = ''__proto__'' \<and> ''__proto__'' \<in> set extra)"
    by auto
  from Cons.prems have "distinct (map fst ((pre @ [kv]) @ rest))" by simp
  moreover from Cons.prems(2) have "''__proto__'' \<in> set extra \<longrightarrow> ''__proto__'' \<notin> fst ` set rest"
    by simp
  ultimately
  have "copy_fields extra (JObject ((pre @ [kv]) @ rest)) (map fst rest) (pre @ [kv])
          = Inr ((pre @ [kv]) @ rest)"
    by (rule Cons.IH)
  then have "copy_fields extra (JObject (pre @ kv # rest)) (map fst rest) (pre @ [kv])
          = Inr (pre @ kv # rest)"
    by simp
  with look fresh kv plain show ?case
    by (auto simp: obj_assign_def obj_set_def update_fresh_key)
qed

text \<open>
  What \<open>parseEntry\<close> does copy. For an entry with a truthy \<open>url\<close> field, the Document
  has the raw url resolved and stripped as its \<open>url\<close>, and its \<open>meta\<close> reads like the
  entry at every key but \<open>__proto__\<close>, the raw \<open>url\<close> and the \<open>children\<close> field included;
  when the entry has no field \<open>__proto__\<close>, or the engine no such accessor, \<open>meta\<close> lists
  the fields of the entry, all of them and in their order. A field \<open>__proto__\<close> of the
  entry, in an engine with the accessor, is not in \<open>meta\<close>.
\<close>

lemma parseEntry_meta_copy:
  assumes "has_url entry" "readable_entry entry"
  shows "\<exists>doc lg' kvs u.
           Index_parseEntry env entry lg = Inr (Some doc, lg')
           \<and> entry = JObject kvs \<and> obj_get kvs ''url'' = Some u \<and> truthy u
           \<and> url doc = stripHash env (absoluteURL env u)
           \<and> (\<forall>key. key \<noteq> ''__proto__'' \<longrightarrow> obj_get (meta doc) key = obj_get kvs key)
           \<and> obj_get (meta doc) ''url'' = Some u
           \<and> obj_get (meta doc) ''children'' = obj_get kvs ''children''
           \<and> (''__proto__'' \<in> set (prototype_names env) \<longrightarrow> obj_get (meta doc) ''__proto__'' = None)
           \<and> (''__proto__'' \<notin> set (prototype_names env) \<longrightarrow>
                  obj_get (meta doc) ''__proto__'' = obj_get kvs ''__proto__'')
           \<and> (distinct (map fst kvs)
                \<and> (''__proto__'' \<in> set (prototype_names env) \<longrightarrow> ''__proto__'' \<notin> fst ` set kvs)
                \<longrightarrow> meta doc = kvs)"
proof -
  let ?extra = "prototype_names env"
  from parseEntry_total [OF assms(2), of env] obtain r lg' where
    res: "Index_parseEntry env entry lg = Inr (r, lg')" by blast
  from parseEntry_inversion [OF res] obtain u chs where
    u: "js_prop entry ''url'' = Inr u" and chs: "js_prop entry ''children'' = Inr chs"
    and rest: "if \<not> truthy u
               then r = None \<and> lg' = warn ''Ignored document index entry without URL'' lg
               else \<exists>keys m kids.
                      Object_keys (keys_es5 env) entry = Inr keys
                      \<and> copy_fields (prototype_names env) entry keys [] = Inr m
                      \<and> r = Some (Document (stripHash env (absoluteURL env u)) m kids)
                      \<and> ((\<exists>cs. chs = JArray cs \<and> parseEntry_children env cs [] lg = Inr (kids, lg'))
                          \<or> ((\<forall>cs. chs \<noteq> JArray cs) \<and> kids = [] \<and> lg' = lg))"
    by blast
  from assms(1) u have t: "truthy u" by (simp add: has_url_def)
  with u obtain kvs where kvs: "entry = JObject kvs" and look: "obj_get kvs ''url'' = Some u"
    using truthy_url_object by blast
  from rest t kvs obtain m kids where
    m: "copy_fields ?extra (JObject kvs) (map fst kvs) [] = Inr m"
    and r: "r = Some (Document (stripHash env (absoluteURL env u)) m kids)"
    by auto
  have every: "obj_get m key =
      (if key \<in> set (map fst kvs) \<and> \<not> (key = ''__proto__'' \<and> ''__proto__'' \<in> set ?extra)
       then obj_get kvs key else obj_get [] key)" for key
    by (rule copy_fields_lookup [OF _ m]) simp
  have absent: "key \<notin> set (map fst kvs) \<Longrightarrow> obj_get kvs key = None" for key
    by (simp add: obj_get_def map_of_eq_None_iff)
  have other: "\<forall>key. key \<noteq> ''__proto__'' \<longrightarrow> obj_get m key = obj_get kvs key"
    using every absent by (simp add: obj_get_def)
  have dropped: "''__proto__'' \<in> set ?extra \<longrightarrow> obj_get m ''__proto__'' = None"
    using every [of "''__proto__''"] by (simp add: obj_get_def)
  have kept: "''__proto__'' \<notin> set ?extra \<longrightarrow> obj_get m ''__proto__'' = obj_get kvs ''__proto__''"
    using every [of "''__proto__''"] absent [of "''__proto__''"] by (simp add: obj_get_def)
  have dist: "distinct (map fst kvs)
                \<and> (''__proto__'' \<in> set ?extra \<longrightarrow> ''__proto__'' \<notin> fst ` set kvs)
              \<longrightarrow> m = kvs"
  proof
    assume a: "distinct (map fst kvs)
                \<and> (''__proto__'' \<in> set ?extra \<longrightarrow> ''__proto__'' \<notin> fst ` set kvs)"
    then have "copy_fields ?extra (JObject ([] @ kvs)) (map fst kvs) [] = Inr ([] @ kvs)"
      by (intro copy_fields_distinct) simp_all
    with m show "m = kvs" by simp
  qed
  let ?doc = "Document (stripHash env (absoluteURL env u)) m kids"
  have "Index_parseEntry env entry lg = Inr (Some ?doc, lg')"
    using res r by simp
  moreover have "url ?doc = stripHash env (absoluteURL env u)" by simp
  moreover have "\<forall>key. key \<noteq> ''__proto__'' \<longrightarrow> obj_get (meta ?doc) key = obj_get kvs key"
    using other by simp
  moreover have "obj_get (meta ?doc) ''url'' = Some u" using other look by simp
  moreover have "obj_get (meta ?doc) ''children'' = obj_get kvs ''children''" using other by simp
  moreover have "''__proto__'' \<in> set ?extra \<longrightarrow> obj_get (meta ?doc) ''__proto__'' = None"
    using dropped by simp
  moreover have "''__proto__'' \<notin> set ?extra \<longrightarrow>
      obj_get (meta ?doc) ''__proto__'' = obj_get kvs ''__proto__''"
    using kept by simp
  moreover have "distinct (map fst kvs)
                \<and> (''__proto__'' \<in> set ?extra \<longrightarrow> ''__proto__'' \<notin> fst ` set kvs)
              \<longrightarrow> meta ?doc = kvs" using dist by simp
  ultimately show ?thesis
    using kvs look t by blast
qed

text \<open>
  Claim C7. The claim is that \<open>meta\<close> is a copy of every field of the entry, none filtered
  out. In a browser, where \<open>Object.prototype\<close> has the accessor \<open>__proto__\<close>, the code
  loses one: for the entry that the decoder makes of
  \<open>{"url": "/a", "__proto__": "p", "title": "A"}\<close>, which has the own field \<open>__proto__\<close>,
  \<open>parseEntry\<close> returns a Document whose \<open>meta\<close> has the fields \<open>url\<close> and \<open>title\<close> and no
  field \<open>__proto__\<close>.
\<close>

theorem parseEntry_drops_proto_field:
  "has_url (JObject [(''url'', JString ''/a''), (''__proto__'', JString ''p''),
                     (''title'', JString ''A'')])
   \<and> readable_entry (JObject [(''url'', JString ''/a''), (''__proto__'', JString ''p''),
                              (''title'', JString ''A'')])
   \<and> Index_parseEntry example_env
        (JObject [(''url'', JString ''/a''), (''__proto__'', JString ''p''),
                  (''title'', JString ''A'')]) []
      = Inr (Some (Document ''http://h/a''
                     [(''url'', JString ''/a''), (''title'', JString ''A'')] []),
             [])
   \<and> obj_get [(''url'', JString ''/a''), (''__proto__'', JString ''p''), (''title'', JString ''A'')]
        ''__proto__'' = Some (JString ''p'')
   \<and> obj_get (meta (Document ''http://h/a''
                      [(''url'', JString ''/a''), (''title'', JString ''A'')] []))
        ''__proto__'' = None"
  by (simp add: has_url_def readable_entry.simps Index_parseEntry.simps obj_get_def obj_set_def
        obj_assign_def example_env_def browser_names_def)

lemma append_map_children:
  "None \<notin> set rs \<Longrightarrow> Index_children (snd (append_map this rs)) = Index_children this @ rs"
  by (simp add: append_map_non_null)

lemma parse_map_no_null:
  assumes "parse_map env entries lg = Inr (result, lg')"
  shows "no_null_children (filter (\<lambda>r. r \<noteq> None) result)"
  using assms
proof (induction entries arbitrary: lg result)
  case Nil
  then show ?case by auto
next
  case (Cons entry rest)
  from Cons.prems obtain r lg1 rs where
    one: "Index_parseEntry env entry lg = Inr (r, lg1)"
    and two: "parse_map env rest lg1 = Inr (rs, lg')"
    and res: "result = r # rs"
    by (auto split: sum.splits)
  from Cons.IH [OF two] have ih: "no_null_children (filter (\<lambda>r. r \<noteq> None) rs)" .
  show ?case
  proof (cases r)
    case None
    with res ih show ?thesis by simp
  next
    case (Some d)
    with one parseEntry_no_null_both(1) [of env entry lg]
    have "no_null_children (children d)" by blast
    with res ih Some show ?thesis by simp
  qed
qed

lemma parse_preserves_no_null:
  assumes "Index_parse env this index lg = Inr (returned, this', lg')"
    and "no_null_children (Index_children this)"
  shows "no_null_children (Index_children this')"
proof (cases "this' = this")
  case True
  with assms(2) show ?thesis by simp
next
  case False
  have "\<exists>entries result l0 l1. parse_map env entries l0 = Inr (result, l1)
          \<and> this' = snd (append_map this (filter (\<lambda>r. r \<noteq> None) result))"
  proof (cases "truthy index")
    case no: False
    with assms(1) False show ?thesis by (simp add: Index_parse_def)
  next
    case True
    show ?thesis
    proof (cases "decode_index env index")
      case (Inl e)
      with assms(1) False True show ?thesis by (simp add: Index_parse_def)
    next
      case (Inr v)
      show ?thesis
      proof (cases "\<exists>entries. v = JArray entries")
        case no: False
        with assms(1) \<open>this' \<noteq> this\<close> True Inr show ?thesis
          by (simp add: Index_parse_def case_not_array)
      next
        case yes: True
        then obtain entries where v: "v = JArray entries" by blast
        show ?thesis
        proof (cases "parse_map env entries lg")
          case (Inl e)
          with assms(1) True \<open>decode_index env index = Inr v\<close> v show ?thesis
            by (simp add: Index_parse_def)
        next
          case pm: (Inr p)
          obtain result l1 where p: "p = (result, l1)" by (cases p)
          from assms(1) True \<open>decode_index env index = Inr v\<close> v pm p
          have "this' = snd (append_map this (filter (\<lambda>r. r \<noteq> None) result))"
            by (auto simp: Index_parse_def Let_def split: prod.splits)
          with pm p show ?thesis by blast
        qed
      qed
    qed
  qed
  then obtain entries result l0 l1 where pm: "parse_map env entries l0 = Inr (result, l1)"
    and t: "this' = snd (append_map this (filter (\<lambda>r. r \<noteq> None) result))" by blast
  have "Index_children this' = Index_children this @ filter (\<lambda>r. r \<noteq> None) result"
    unfolding t by (rule append_map_children) simp
  with assms(2) parse_map_no_null [OF pm] show ?thesis
    by (simp add: no_null_children_append)
qed

text \<open>
  Claim C8. No \<open>children\<close> array of the tree that \<open>parse\<close> and \<open>parseEntry\<close> build holds a
  null: not in the Index after any sequence of calls of \<open>parse\<close>, and not in a Document
  that \<open>parseEntry\<close> returns. \<open>parseEntry\<close> hands the result of the recursive call to
  \<open>appendChild\<close> as it is, null included, and \<open>appendChild\<close> appends nothing then and
  returns its argument.
\<close>

theorem parse_never_leaves_null_children:
  "(parsed_index env this \<longrightarrow> no_null_children (Index_children this))
   \<and> (Index_parseEntry env entry lg = Inr (Some doc, lg') \<longrightarrow> no_null_children [Some doc])
   \<and> TreeNode_appendChild kids None = (kids, None)"
proof (intro conjI impI)
  assume "parsed_index env this"
  then show "no_null_children (Index_children this)"
  proof (induction rule: parsed_index.induct)
    case fresh
    show ?case by (simp add: Index_new_def)
  next
    case (parse this index lg returned this' lg')
    then show ?case using parse_preserves_no_null by blast
  qed
next
  assume "Index_parseEntry env entry lg = Inr (Some doc, lg')"
  with parseEntry_no_null_both(1) [of env entry lg]
  show "no_null_children [Some doc]" by simp
next
  show "TreeNode_appendChild kids None = (kids, None)"
    by (simp add: TreeNode_appendChild_def)
qed

theorem parse_never_leaves_null_children_witness:
  "parsed_index example_env
     \<lparr>Index_children =
        [Some (Document ''http://h/a''
                 [(''url'', JString ''/a''),
                  (''children'', JArray [JObject [(''title'', JString ''no url'')],
                                         JObject [(''url'', JString ''/b'')]])]
                 [Some (Document ''http://h/b'' [(''url'', JString ''/b'')] [])])],
      documentMap = [], documentPositions = [], documents = []\<rparr>
   \<and> no_null_children
        [Some (Document ''http://h/a''
                 [(''url'', JString ''/a''),
                  (''children'', JArray [JObject [(''title'', JString ''no url'')],
                                         JObject [(''url'', JString ''/b'')]])]
                 [Some (Document ''http://h/b'' [(''url'', JString ''/b'')] [])])]
   \<and> Index_parseEntry example_env (JObject [(''title'', JString ''no url'')]) []
       = Inr (None, [''Ignored document index entry without URL''])"
proof -
  let ?index = "JArray [JObject [(''url'', JString ''/a''),
                  (''children'', JArray [JObject [(''title'', JString ''no url'')],
                                         JObject [(''url'', JString ''/b'')]])]]"
  let ?idx = "\<lparr>Index_children =
        [Some (Document ''http://h/a''
                 [(''url'', JString ''/a''),
                  (''children'', JArray [JObject [(''title'', JString ''no url'')],
                                         JObject [(''url'', JString ''/b'')]])]
                 [Some (Document ''http://h/b'' [(''url'', JString ''/b'')] [])])],
      documentMap = [], documentPositions = [], documents = []\<rparr>"
  have "Index_parse example_env Index_new ?index [] =
      Inr (Index_children ?idx, ?idx, [''Ignored document index entry without URL''])"
    by (simp add: Index_parse_def decode_index_def Index_parseEntry.simps obj_get_def obj_set_def
        obj_assign_def example_env_def warn_def TreeNode_appendChild_def Index_new_def)
  with parsed_index.fresh [of example_env] have p: "parsed_index example_env ?idx"
    by (rule parsed_index.parse)
  have n: "Index_parseEntry example_env (JObject [(''title'', JString ''no url'')]) []
       = Inr (None, [''Ignored document index entry without URL''])"
    by (simp add: Index_parseEntry.simps obj_get_def warn_def)
  from parse_never_leaves_null_children [of example_env ?idx] p
  have "no_null_children (Index_children ?idx)" by blast
  with p n show ?thesis by simp
qed

lemma js_prop_raises: "js_prop entry key = Inl e \<Longrightarrow> e = TypeError"
  by (cases entry) auto

lemma parseEntry_raises_both:
  fixes kids :: "document option list"
  shows "(\<not> readable_entry entry \<longrightarrow> Index_parseEntry env entry lg = Inl TypeError)"
  and "(\<not> list_all readable_entry cs \<longrightarrow> parseEntry_children env cs kids lg0 = Inl TypeError)"
proof (induction env entry lg and env cs kids lg0 rule: Index_parseEntry_parseEntry_children.induct)
  case (1 env entry lg)
  show ?case
  proof
    assume nr: "\<not> readable_entry entry"
    show "Index_parseEntry env entry lg = Inl TypeError"
    proof (cases "js_prop entry ''url''")
      case (Inl e)
      then show ?thesis
        using js_prop_raises [OF Inl] by (simp add: Index_parseEntry.simps [of env entry])
    next
      case (Inr u)
      with nr have t: "truthy u"
        by (auto simp: readable_entry.simps [of entry] split: if_splits)
      from Inr obtain chs where chs: "js_prop entry ''children'' = Inr chs"
        using js_prop_defined by blast
      from nr Inr t chs obtain cs where cs: "chs = JArray cs" and bad: "\<not> list_all readable_entry cs"
        by (cases chs) (auto simp: readable_entry.simps [of entry])
      from Inr t obtain kvs where kvs: "entry = JObject kvs"
        using truthy_url_object by blast
      then have keys: "Object_keys (keys_es5 env) entry = Inr (map fst kvs)" by simp
      obtain m where m: "copy_fields (prototype_names env) entry (map fst kvs) [] = Inr m"
        using copy_fields_object kvs by blast
      from "1.IH" [OF Inr chs _ keys m cs] t bad
      have "parseEntry_children env cs [] lg = Inl TypeError" by simp
      with Inr chs t keys m cs show ?thesis
        by (simp add: Index_parseEntry.simps [of env entry])
    qed
  qed
next
  case (2 env kids lg)
  show ?case by simp
next
  case (3 env child rest kids lg)
  show ?case
  proof
    assume bad: "\<not> list_all readable_entry (child # rest)"
    show "parseEntry_children env (child # rest) kids lg = Inl TypeError"
    proof (cases "readable_entry child")
      case False
      with "3.IH"(1) show ?thesis by simp
    next
      case True
      with bad have br: "\<not> list_all readable_entry rest" by simp
      from parseEntry_total [OF True, of env] obtain r ws where
        "Index_parseEntry env child lg = Inr (r, lg @ ws)" by blast
      with "3.IH"(2) [OF this refl] br show ?thesis by simp
    qed
  qed
qed

lemma parse_map_raises:
  "\<not> list_all readable_entry entries \<Longrightarrow> parse_map env entries lg = Inl TypeError"
proof (induction entries arbitrary: lg)
  case Nil
  then show ?case by simp
next
  case (Cons entry rest)
  show ?case
  proof (cases "readable_entry entry")
    case False
    with parseEntry_raises_both(1) [of entry env lg] show ?thesis by simp
  next
    case True
    with Cons.prems have br: "\<not> list_all readable_entry rest" by simp
    from parseEntry_total [OF True, of env] obtain r ws where
      "Index_parseEntry env entry lg = Inr (r, lg @ ws)" by blast
    with Cons.IH [OF br] show ?thesis by simp
  qed
qed

text \<open>
  The condition on the entries is the exact one: on an array with an entry that cannot be
  read, \<open>parse\<close> raises, and nothing has been appended.
\<close>

lemma parse_raises_on_unreadable:
  "\<not> list_all readable_entry entries \<Longrightarrow> Index_parse env this (JArray entries) lg = Inl TypeError"
  by (simp add: Index_parse_def decode_index_def parse_map_raises)

lemma parse_raises_on_null_entry:
  "Index_parse env this (JArray [JNull]) lg = Inl TypeError"
  by (simp add: parse_raises_on_unreadable readable_entry.simps)

end
